theory Spec2Isabelle
  imports Complex_Main "HOL-Library.Word"
begin

unbundle bit_operations_syntax

chapter \<open>Ardour playback engine: Beats, TransportFSM, DiskReader\<close>

section \<open>Evoral::Beats (libs/evoral/evoral/Beats.hpp)\<close>

text \<open>
  The class holds two \<open>int32_t\<close> fields, \<open>_beats\<close> and \<open>_ticks\<close>. They are modelled
  as 32-bit words; signed overflow, which C++ leaves undefined, wraps around here
  (two's complement), and \<open>abs\<close> of the most negative value is that value again.
\<close>

type_synonym int32 = "32 word"

definition PPQN :: int32 where
  "PPQN = 1920"

record Beats =
  m_beats :: int32
  m_ticks :: int32

lemma sint_add_PPQN: "t <s 0 \<Longrightarrow> sint (t + PPQN :: int32) = sint t + 1920"
  unfolding PPQN_def word_sless_alt
  using sint_ge[of t] sint_lt[of t]
  by (simp add: sint_word_ariths signed_take_bit_int_eq_self)

lemma sint_sub_PPQN: "PPQN \<le>s t \<Longrightarrow> sint (t - PPQN :: int32) = sint t - 1920"
  unfolding PPQN_def word_sle_eq
  using sint_ge[of t] sint_lt[of t]
  by (simp add: sint_word_ariths signed_take_bit_int_eq_self)

text \<open>\<^verbatim>\<open>while (_ticks < 0) { --_beats; _ticks += PPQN; }\<close>\<close>

function fix_negative_ticks :: "int32 \<Rightarrow> int32 \<Rightarrow> int32 \<times> int32" where
  "fix_negative_ticks b t =
     (if t <s 0 then fix_negative_ticks (b - 1) (t + PPQN) else (b, t))"
  by pat_completeness auto
termination
proof (relation "measure (\<lambda>(b, t). nat (- sint t))")
  show "wf (measure (\<lambda>(b, t). nat (- sint t)))"
    by simp
next
  fix b t :: int32
  assume neg: "t <s 0"
  then have "sint t < 0"
    by (simp add: word_sless_alt)
  with neg show "((b - 1, t + PPQN), (b, t)) \<in> measure (\<lambda>(b, t). nat (- sint t))"
    by (simp add: sint_add_PPQN)
qed

declare fix_negative_ticks.simps [simp del]

text \<open>\<^verbatim>\<open>while (ticks >= PPQN) { ++beats; ticks -= PPQN; }\<close>\<close>

function reduce_ticks :: "int32 \<Rightarrow> int32 \<Rightarrow> int32 \<times> int32" where
  "reduce_ticks beats ticks =
     (if PPQN \<le>s ticks then reduce_ticks (beats + 1) (ticks - PPQN) else (beats, ticks))"
  by pat_completeness auto
termination
proof (relation "measure (\<lambda>(beats, ticks). nat (sint ticks))")
  show "wf (measure (\<lambda>(beats, ticks). nat (sint ticks)))"
    by simp
next
  fix beats ticks :: int32
  assume ge: "PPQN \<le>s ticks"
  then have "1920 \<le> sint ticks"
    by (simp add: word_sle_eq PPQN_def)
  with ge show "((beats + 1, ticks - PPQN), (beats, ticks))
      \<in> measure (\<lambda>(beats, ticks). nat (sint ticks))"
    by (simp add: sint_sub_PPQN)
qed

declare reduce_ticks.simps [simp del]

definition abs_int32 :: "int32 \<Rightarrow> int32" where
  "abs_int32 x = (if x <s 0 then - x else x)"

text \<open>
  \<open>Beats::normalize\<close>. The test \<open>_beats >= 0\<close> is made once, before the first loop;
  the loop itself goes on while \<open>_ticks\<close> is negative, whatever \<open>_beats\<close> has become.
\<close>

definition normalize :: "Beats \<Rightarrow> Beats" where
  "normalize x =
     (let (b1, t1) = (if 0 \<le>s m_beats x then fix_negative_ticks (m_beats x) (m_ticks x)
                      else (m_beats x, m_ticks x));
          sign = (if b1 <s 0 then - 1 else 1);
          (beats, ticks) = reduce_ticks (abs_int32 b1) (abs_int32 t1)
      in \<lparr>m_beats = sign * beats, m_ticks = sign * ticks\<rparr>)"

text \<open>\<open>Beats(int32_t b, int32_t t)\<close>: store the fields, then normalize.\<close>

definition Beats_bt :: "int32 \<Rightarrow> int32 \<Rightarrow> Beats" where
  "Beats_bt b t = normalize \<lparr>m_beats = b, m_ticks = t\<rparr>"

text \<open>\<open>to_ticks\<close>: the tick value \<open>(int64_t)_beats * PPQN + _ticks\<close>, which cannot overflow.\<close>

definition to_ticks :: "Beats \<Rightarrow> int" where
  "to_ticks x = sint (m_beats x) * sint PPQN + sint (m_ticks x)"

subsection \<open>Construction from a double\<close>

text \<open>
  A double is modelled by the real number it denotes. \<open>modf\<close> is exact. The product
  \<open>frac * PPQN\<close> is computed in double precision: its rounding to a double is the
  parameter \<open>rnd\<close> (the identity wherever the exact product is itself a double). The
  conversion of a double to \<open>int32_t\<close> discards the fractional part (truncation toward
  zero) and is undefined when the result does not fit: \<open>None\<close>.
\<close>

definition c_trunc :: "real \<Rightarrow> int" where
  "c_trunc x = (if 0 \<le> x then \<lfloor>x\<rfloor> else \<lceil>x\<rceil>)"

text \<open>\<open>modf time\<close> returns the fractional part and stores the integral part: (frac, whole).\<close>

definition modf :: "real \<Rightarrow> real \<times> real" where
  "modf x = (x - of_int (c_trunc x), of_int (c_trunc x))"

definition double_to_int32 :: "real \<Rightarrow> int32 option" where
  "double_to_int32 x =
     (let z = c_trunc x
      in if - (2 ^ 31) \<le> z \<and> z < 2 ^ 31 then Some (word_of_int z) else None)"

definition Beats_double :: "(real \<Rightarrow> real) \<Rightarrow> real \<Rightarrow> Beats option" where
  "Beats_double rnd time =
     (let (frac, whole) = modf time
      in case double_to_int32 whole of
           None \<Rightarrow> None
         | Some b \<Rightarrow>
             (case double_to_int32 (rnd (frac * real_of_int (sint PPQN))) of
                None \<Rightarrow> None
              | Some t \<Rightarrow> Some \<lparr>m_beats = b, m_ticks = t\<rparr>))"

section \<open>TransportFSM (ardour/transport_fsm.h, transport_fsm.cc)\<close>

text \<open>\<open>samplepos_t\<close> and \<open>samplecnt_t\<close> are 64-bit; no sum formed here comes near the limit,
  and they are modelled as integers.\<close>

type_synonym samplepos = int
type_synonym samplecnt = int

record stop =
  abort :: bool
  clear_state :: bool

record locate =
  target :: samplepos
  with_roll :: bool
  with_flush :: bool
  with_loop :: bool
  force :: bool

datatype event =
  ev_locate_done
  | ev_butler_done
  | ev_butler_required
  | ev_declick_done
  | ev_start
  | ev_stop stop
  | ev_locate locate

datatype fsm_state = Stopped | Rolling | ButlerWait | MasterWait | DeclickOut | Locating

datatype action =
  start_playback
  | stop_playback stop
  | start_locate locate
  | butler_completed_transport_work
  | schedule_butler_for_transport_work
  | exit_declick
  | locate_phase_two
  | roll_after_locate
  | no_transition event

record TransportFSM =
  current_state :: fsm_state
  stopped_to_locate :: bool
  last_locate :: locate
  deferred_events :: "event list"
  actions :: "action list"

text \<open>
  The transition actions are virtual members which \<open>TransportSM\<close> overrides to call
  into the session. The model records each invocation, oldest first, in \<open>actions\<close>.
\<close>

definition call :: "action \<Rightarrow> TransportFSM \<Rightarrow> TransportFSM" where
  "call a m = m\<lparr>actions := actions m @ [a]\<rparr>"

text \<open>
  \<^verbatim>\<open>_stopped_to_locate = true; _last_locate = l; stop_playback (stop());\<close>
\<close>

definition mark_for_locate :: "locate \<Rightarrow> TransportFSM \<Rightarrow> TransportFSM" where
  "mark_for_locate l m =
     call (stop_playback \<lparr>abort = False, clear_state = False\<rparr>)
       (m\<lparr>stopped_to_locate := True, last_locate := l\<rparr>)"

text \<open>\<^verbatim>\<open>_stopped_to_locate = false; stop_playback (s);\<close>\<close>

definition mark_for_stop :: "stop \<Rightarrow> TransportFSM \<Rightarrow> TransportFSM" where
  "mark_for_stop s m = call (stop_playback s) (m\<lparr>stopped_to_locate := False\<rparr>)"

text \<open>
  A row of \<open>transition_table\<close>: the next state with the action, or \<open>Defer\<close> (the two
  \<open>boost::msm::front::Row\<close> entries of \<open>ButlerWait\<close>), or no row at all. The guards
  \<open>stopped_to_locate\<close> and \<open>stopped_to_stop\<close> read \<open>_stopped_to_locate\<close>; the virtual
  guard \<open>should_roll_after_locate\<close>, which \<open>TransportSM\<close> overrides, is the parameter
  \<open>g\<close>. The \<open>on_entry\<close> and \<open>on_exit\<close> members only print.
\<close>

datatype row = Row fsm_state "TransportFSM \<Rightarrow> TransportFSM" | Defer | NoRow

fun transition_table :: "(TransportFSM \<Rightarrow> bool) \<Rightarrow> TransportFSM \<Rightarrow> fsm_state \<Rightarrow> event \<Rightarrow> row" where
  "transition_table g m Stopped ev_start = Row Rolling (call start_playback)"
| "transition_table g m Stopped (ev_stop s) = Row Stopped id"
| "transition_table g m Stopped (ev_locate l) = Row Locating (mark_for_locate l)"
| "transition_table g m Stopped ev_butler_done = Row Stopped (call butler_completed_transport_work)"
| "transition_table g m Stopped ev_butler_required =
     Row ButlerWait (call schedule_butler_for_transport_work)"
| "transition_table g m Rolling (ev_stop s) = Row DeclickOut (mark_for_stop s)"
| "transition_table g m Rolling ev_start = Row Rolling id"
| "transition_table g m Rolling (ev_locate l) = Row DeclickOut (mark_for_locate l)"
| "transition_table g m Rolling ev_butler_done = Row Rolling id"
| "transition_table g m DeclickOut ev_declick_done =
     (if stopped_to_locate m then Row Locating (call exit_declick)
      else Row Stopped (call exit_declick))"
| "transition_table g m DeclickOut ev_butler_required =
     Row ButlerWait (call schedule_butler_for_transport_work)"
| "transition_table g m Locating ev_locate_done =
     (if g m then Row Rolling (call roll_after_locate) else Row Stopped id)"
| "transition_table g m Locating (ev_stop s) = Row Stopped (call (stop_playback s))"
| "transition_table g m Locating ev_start = Row Rolling id"
| "transition_table g m Locating (ev_locate l) = Row Rolling id"
| "transition_table g m Locating ev_butler_done = Row Locating id"
| "transition_table g m Locating ev_butler_required =
     Row ButlerWait (call schedule_butler_for_transport_work)"
| "transition_table g m ButlerWait ev_butler_done =
     (if stopped_to_locate m then Row Locating (call locate_phase_two)
      else Row Stopped (call butler_completed_transport_work))"
| "transition_table g m ButlerWait ev_start = Defer"
| "transition_table g m ButlerWait (ev_stop s) = Defer"
| "transition_table g m ButlerWait ev_butler_required =
     Row ButlerWait (call schedule_butler_for_transport_work)"
| "transition_table g m _ _ = NoRow"

text \<open>
  Modelled from the spec: the event loop of the Boost.MSM back-end
  (\<open>msm::back::state_machine\<close>), which the header instantiates and the sources do not
  contain. An event with a row takes it; an event with no row goes to \<open>no_transition\<close>
  and leaves the machine as it is; an event of a \<open>Defer\<close> row is appended to the queue.
  After an event has taken a row the queued events are reinjected in FIFO order, before
  any new event is processed; one that is deferred again rejoins the queue.
\<close>

definition dispatch :: "(TransportFSM \<Rightarrow> bool) \<Rightarrow> TransportFSM \<Rightarrow> event \<Rightarrow> TransportFSM" where
  "dispatch g m e =
     (case transition_table g m (current_state m) e of
        Row next act \<Rightarrow> (act m)\<lparr>current_state := next\<rparr>
      | Defer \<Rightarrow> m\<lparr>deferred_events := deferred_events m @ [e]\<rparr>
      | NoRow \<Rightarrow> call (no_transition e) m)"

fun reinject :: "(TransportFSM \<Rightarrow> bool) \<Rightarrow> TransportFSM \<Rightarrow> event list \<Rightarrow> TransportFSM" where
  "reinject g m [] = m"
| "reinject g m (d # ds) = reinject g (dispatch g m d) ds"

definition process_event :: "(TransportFSM \<Rightarrow> bool) \<Rightarrow> TransportFSM \<Rightarrow> event \<Rightarrow> TransportFSM" where
  "process_event g m e =
     (case transition_table g m (current_state m) e of
        Row next act \<Rightarrow>
          reinject g ((act m)\<lparr>current_state := next, deferred_events := []\<rparr>) (deferred_events m)
      | Defer \<Rightarrow> m\<lparr>deferred_events := deferred_events m @ [e]\<rparr>
      | NoRow \<Rightarrow> call (no_transition e) m)"

definition start_or_stop :: "event \<Rightarrow> bool" where
  "start_or_stop e = (case e of ev_start \<Rightarrow> True | ev_stop s \<Rightarrow> True | _ \<Rightarrow> False)"

definition butler_wait_0 :: TransportFSM where
  "butler_wait_0 =
     \<lparr>current_state = ButlerWait, stopped_to_locate = False,
      last_locate = \<lparr>target = 0, with_roll = False, with_flush = False, with_loop = False,
        force = False\<rparr>,
      deferred_events = [], actions = []\<rparr>"

definition rolling_0 :: TransportFSM where
  "rolling_0 =
     \<lparr>current_state = Rolling, stopped_to_locate = False,
      last_locate = \<lparr>target = 0, with_roll = False, with_flush = False, with_loop = False,
        force = False\<rparr>,
      deferred_events = [], actions = [start_playback]\<rparr>"

definition locate_44100 :: locate where
  "locate_44100 = \<lparr>target = 44100, with_roll = False, with_flush = True, with_loop = False,
     force = False\<rparr>"

text \<open>
  A \<open>ButlerWait\<close> entered on the way to a locate (\<open>_stopped_to_locate\<close> set, the stop of
  \<open>mark_for_locate\<close> already called), and the plain stop request.
\<close>

definition butler_wait_1 :: TransportFSM where
  "butler_wait_1 =
     \<lparr>current_state = ButlerWait, stopped_to_locate = True, last_locate = locate_44100,
      deferred_events = [], actions = [stop_playback \<lparr>abort = False, clear_state = False\<rparr>]\<rparr>"

definition stop_0 :: stop where
  "stop_0 = \<lparr>abort = False, clear_state = False\<rparr>"


section \<open>PBD::PlaybackBuffer\<close>

type_synonym Sample = real
type_synonym gain_t = real
type_synonym size_t = "64 word"

text \<open>
  Modelled from the spec: \<open>PBD::PlaybackBuffer<Sample>\<close>, whose header is not in the
  sources. A ring of fixed capacity with a read and a write index; the readable count is
  \<open>(write_idx - read_idx) mod capacity\<close>, the writable count is one less than the rest.
  A read hands out what is there, up to the count asked for, and moves the read index
  past it; a read that does not advance copies from \<open>offset\<close> samples ahead and moves
  nothing; a write is short only when the ring is full.
\<close>

record PlaybackBuffer =
  bufsize :: nat
  read_idx :: nat
  write_idx :: nat
  storage :: "Sample list"

definition read_space :: "PlaybackBuffer \<Rightarrow> nat" where
  "read_space rb = (write_idx rb + bufsize rb - read_idx rb) mod bufsize rb"

definition write_space :: "PlaybackBuffer \<Rightarrow> nat" where
  "write_space rb = bufsize rb - 1 - read_space rb"

definition samples_at :: "PlaybackBuffer \<Rightarrow> nat \<Rightarrow> nat \<Rightarrow> Sample list" where
  "samples_at rb pos n = map (\<lambda>i. storage rb ! ((pos + i) mod bufsize rb)) [0..<n]"

definition rb_read :: "PlaybackBuffer \<Rightarrow> nat \<Rightarrow> Sample list \<times> PlaybackBuffer" where
  "rb_read rb cnt =
     (let n = min cnt (read_space rb)
      in (samples_at rb (read_idx rb) n, rb\<lparr>read_idx := (read_idx rb + n) mod bufsize rb\<rparr>))"

definition rb_peek :: "PlaybackBuffer \<Rightarrow> nat \<Rightarrow> nat \<Rightarrow> Sample list" where
  "rb_peek rb cnt offset =
     (if read_space rb < offset then []
      else samples_at rb (read_idx rb + offset) (min cnt (read_space rb - offset)))"

definition rb_write :: "PlaybackBuffer \<Rightarrow> Sample list \<Rightarrow> PlaybackBuffer \<times> nat" where
  "rb_write rb src =
     (let n = min (length src) (write_space rb)
      in (rb\<lparr>storage := fold (\<lambda>i st. st[(write_idx rb + i) mod bufsize rb := src ! i])
                          [0..<n] (storage rb),
             write_idx := (write_idx rb + n) mod bufsize rb\<rparr>, n))"

definition write_zero :: "PlaybackBuffer \<Rightarrow> nat \<Rightarrow> PlaybackBuffer" where
  "write_zero rb cnt = fst (rb_write rb (replicate cnt 0))"

definition increment_read_ptr :: "PlaybackBuffer \<Rightarrow> nat \<Rightarrow> PlaybackBuffer \<times> nat" where
  "increment_read_ptr rb cnt =
     (let n = min cnt (read_space rb)
      in (rb\<lparr>read_idx := (read_idx rb + n) mod bufsize rb\<rparr>, n))"

definition read_flush :: "PlaybackBuffer \<Rightarrow> PlaybackBuffer" where
  "read_flush rb = rb\<lparr>read_idx := write_idx rb\<rparr>"

definition rb_reset :: "PlaybackBuffer \<Rightarrow> PlaybackBuffer" where
  "rb_reset rb = rb\<lparr>read_idx := 0, write_idx := 0\<rparr>"

section \<open>DiskReader (libs/ardour/disk_reader.cc)\<close>

text \<open>
  Modelled from the spec: \<open>MonitorState\<close>, declared in ardour/types.h, which is not in
  the sources. It is a set of two flags, Input and Disk: \<open>ms & MonitoringDisk\<close> is
  \<open>mon_disk ms\<close>, and \<open>ms == MonitoringDisk\<close> is \<open>mon_disk ms \<and> \<not> mon_input ms\<close>.
\<close>

record MonitorState =
  mon_input :: bool
  mon_disk :: bool

datatype fatal = Abort | DivisionByZero | AssertionFailed

text \<open>
  The reader. \<open>'m\<close> is the MIDI ring (\<open>MidiRingBuffer\<close>) and \<open>'p\<close> the MIDI playlist with
  its note trackers; both are outside the sources and stay abstract. \<open>playlist_audio\<close>
  tells whether \<open>_playlists[DataType::AUDIO]\<close> is set. The two atomic counters are read
  as \<open>uint32_t\<close>. \<open>underruns\<close> counts the emissions of the \<open>Underrun\<close> signal.
\<close>

record ('m, 'p) DiskReader =
  active :: bool
  pending_active :: bool
  channels :: "PlaybackBuffer list"
  midi_buf :: "'m option"
  playlist_audio :: bool
  playlist_midi :: "'p option"
  file_sample_audio :: samplepos
  file_sample_midi :: samplepos
  playback_sample :: samplepos
  pending_overwrite :: bool
  samples_read_from_ringbuffer :: "32 word"
  samples_written_to_ringbuffer :: "32 word"
  declick_gain :: gain_t
  declick_offs :: samplecnt
  need_butler :: bool
  slaved :: bool
  loop_location :: "(samplepos \<times> samplepos) option"
  underruns :: nat


text \<open>
  What the reader gets from outside: the session (\<open>loading\<close>, \<open>transport_speed\<close>,
  \<open>global_locate_pending\<close>, the configuration), the route's monitoring state, the static
  members of the class (\<open>_no_disk_output\<close>, \<open>_chunk_samples\<close>, \<open>midi_readahead\<close>), the
  build (\<open>ndebug\<close>: \<open>NDEBUG\<close> is defined), the playlists, and the parts of the buffers
  that the sources and the spec leave open. \<open>bits_per_sample\<close> is
  \<open>format_data_width (_session.config.get_native_file_data_format ())\<close>. The audio
  playlist returns the samples it has read; their number is the count the source
  compares with \<open>this_read\<close>. \<open>'b\<close> is the \<open>MidiBuffer\<close> of a buffer set.
\<close>

record 'b BufferSet =
  audio :: "Sample list list"
  midi :: "'b list"

record ('m, 'p, 'b) Collaborators =
  loading :: bool
  transport_speed :: real
  global_locate_pending :: bool
  use_transport_fades :: bool
  bits_per_sample :: size_t
  monitoring_state :: MonitorState
  no_disk_output :: bool
  chunk_samples :: samplecnt
  midi_readahead :: samplecnt
  ndebug :: bool
  audio_playlist_read :: "samplepos \<Rightarrow> samplecnt \<Rightarrow> nat \<Rightarrow> Sample list"
  midi_playlist_read ::
    "'p \<Rightarrow> 'm \<Rightarrow> samplepos \<Rightarrow> samplecnt \<Rightarrow> (samplepos \<times> samplepos) option \<Rightarrow> 'p \<times> 'm \<times> nat"
  reset_note_trackers :: "'p \<Rightarrow> 'p"
  midi_reset :: "'m \<Rightarrow> 'm"
  midi_reset_tracker :: "'m \<Rightarrow> 'm"
  midi_write_space :: "'m \<Rightarrow> nat"
  squish :: "samplepos \<times> samplepos \<Rightarrow> samplepos \<Rightarrow> samplepos"
  can_seek :: "PlaybackBuffer \<Rightarrow> int \<Rightarrow> bool"
  decrement_read_ptr :: "PlaybackBuffer \<Rightarrow> nat \<Rightarrow> PlaybackBuffer \<times> nat"
  declick_apply_gain :: "gain_t \<Rightarrow> Sample list \<Rightarrow> nat \<Rightarrow> gain_t \<Rightarrow> Sample list \<times> gain_t"
  apply_simple_gain :: "Sample list \<Rightarrow> nat \<Rightarrow> gain_t \<Rightarrow> Sample list"
  mix_buffers_no_gain :: "Sample list \<Rightarrow> Sample list \<Rightarrow> nat \<Rightarrow> Sample list"
  scratch_audio :: "nat \<Rightarrow> Sample list"
  silence :: "'b BufferSet \<Rightarrow> nat \<Rightarrow> 'b BufferSet"
  get_midi_playback ::
    "bool \<Rightarrow> samplepos \<Rightarrow> samplepos \<Rightarrow> MonitorState \<Rightarrow> real \<Rightarrow> samplecnt \<Rightarrow>
     ('m, 'p) DiskReader \<times> 'b BufferSet \<Rightarrow> ('m, 'p) DiskReader \<times> 'b BufferSet"

definition max_samplepos :: samplepos where
  "max_samplepos = 2 ^ 63 - 1"

text \<open>A sample count passed where the ring takes a \<open>guint\<close>.\<close>

definition to_guint :: "samplecnt \<Rightarrow> nat" where
  "to_guint cnt = nat (cnt mod 2 ^ 32)"

subsection \<open>audio_read\<close>

text \<open>
  The body of \<open>while (cnt)\<close>. With a loop, a read that would pass the loop end is cut
  there (\<open>reloop\<close>) and the next one starts at the loop start.
\<close>

definition this_read_of :: "(samplepos \<times> samplepos) option \<Rightarrow> samplepos \<Rightarrow> samplecnt \<Rightarrow> samplecnt" where
  "this_read_of loc start cnt =
     (case loc of
        Some (loop_start, loop_end) \<Rightarrow> if loop_end - start < cnt then loop_end - start else cnt
      | None \<Rightarrow> cnt)"

definition next_start :: "(samplepos \<times> samplepos) option \<Rightarrow> samplepos \<Rightarrow> samplecnt \<Rightarrow> samplecnt \<Rightarrow> samplepos" where
  "next_start loc start cnt this_read =
     (case loc of
        Some (loop_start, loop_end) \<Rightarrow>
          if loop_end - start < cnt then loop_start else start + this_read
      | None \<Rightarrow> start + this_read)"

function audio_read_loop ::
  "('m, 'p, 'b) Collaborators \<Rightarrow> (samplepos \<times> samplepos) option \<Rightarrow> bool \<Rightarrow> nat \<Rightarrow>
   PlaybackBuffer \<Rightarrow> samplepos \<Rightarrow> samplecnt \<Rightarrow> int \<times> PlaybackBuffer \<times> samplepos" where
  "audio_read_loop env loc reversed channel rb start cnt =
     (if cnt = 0 \<or> this_read_of loc start cnt = 0 then (0, rb, start)
      else if int (length (audio_playlist_read env start (min cnt (this_read_of loc start cnt))
                     channel)) \<noteq> min cnt (this_read_of loc start cnt)
      then (- 1, rb, start)
      else audio_read_loop env loc reversed channel
             (fst (rb_write rb
                (if reversed
                 then rev (audio_playlist_read env start (min cnt (this_read_of loc start cnt))
                        channel)
                 else audio_playlist_read env start (min cnt (this_read_of loc start cnt))
                        channel)))
             (if reversed then start
              else next_start loc start cnt (min cnt (this_read_of loc start cnt)))
             (cnt - min cnt (this_read_of loc start cnt)))"
  by pat_completeness auto
termination
  apply (relation "measure (\<lambda>(env, loc, reversed, channel, rb, start, cnt). nat cnt)")
   apply simp
  subgoal for env loc reversed channel rb start cnt
    by (cases "0 < min cnt (this_read_of loc start cnt)") auto
  done

declare audio_read_loop.simps [simp del]


text \<open>The remainder of C++ integer division, which truncates toward zero.\<close>

definition c_rem :: "int \<Rightarrow> int \<Rightarrow> int" where
  "c_rem a b = a - b * (sgn a * sgn b * (\<bar>a\<bar> div \<bar>b\<bar>))"

text \<open>
  \<open>audio_read\<close>: the result is the return value, the ring, and \<open>start\<close>, which the
  source takes by reference. Loops are not played in reverse: \<open>loc\<close> stays null then.
\<close>

definition audio_read ::
  "('m, 'p, 'b) Collaborators \<Rightarrow> ('m, 'p) DiskReader \<Rightarrow> PlaybackBuffer \<Rightarrow> samplepos \<Rightarrow>
   samplecnt \<Rightarrow> nat \<Rightarrow> bool \<Rightarrow> fatal + (int \<times> PlaybackBuffer \<times> samplepos)" where
  "audio_read env s rb start cnt channel reversed =
     (if \<not> playlist_audio s then Inr (0, write_zero rb (to_guint cnt), start)
      else
        (case (if reversed then None else loop_location s) of
           Some (loop_start, loop_end) \<Rightarrow>
             if loop_end \<le> start
             then (if loop_end - loop_start = 0 then Inl DivisionByZero
                   else Inr (audio_read_loop env (Some (loop_start, loop_end)) reversed channel rb
                          (loop_start + c_rem (start - loop_start) (loop_end - loop_start)) cnt))
             else Inr (audio_read_loop env (Some (loop_start, loop_end)) reversed channel rb
                    start cnt)
         | None \<Rightarrow>
             Inr (audio_read_loop env None reversed channel rb
                    (if reversed then start - cnt else start) cnt)))"

subsection \<open>refill_audio\<close>

definition total_bytes :: "samplecnt \<Rightarrow> size_t \<Rightarrow> size_t" where
  "total_bytes total_space bits = word_of_int total_space * bits div 8"

text \<open>
  \<^verbatim>\<open>max ((size_t) (256 * 1024), min ((size_t) (4 * 1048576), total_bytes))\<close>, then
  \<^verbatim>\<open>(byte_size_for_read / 16384) * 16384\<close>.
\<close>

definition byte_size_for_read :: "size_t \<Rightarrow> size_t" where
  "byte_size_for_read tb = (max (256 * 1024) (min (4 * 1048576) tb) div 16384) * 16384"

text \<open>
  The loop over the channels. Each channel reads from \<open>ffa\<close> again; the value of
  \<open>file_sample_tmp\<close> after the last channel is what \<open>file_sample[AUDIO]\<close> becomes. A failed
  \<open>audio_read\<close> leaves the loop with -1.
\<close>

fun refill_channels ::
  "('m, 'p, 'b) Collaborators \<Rightarrow> ('m, 'p) DiskReader \<Rightarrow> samplepos \<Rightarrow> samplecnt \<Rightarrow> samplecnt \<Rightarrow>
   bool \<Rightarrow> nat \<Rightarrow> PlaybackBuffer list \<Rightarrow> samplepos \<Rightarrow>
   fatal + (int \<times> PlaybackBuffer list \<times> samplepos)" where
  "refill_channels env s ffa ts samples_to_read reversed chan_n [] file_sample_tmp =
     Inr (0, [], file_sample_tmp)"
| "refill_channels env s ffa ts samples_to_read reversed chan_n (chan # rest) file_sample_tmp =
     (let to_read = min (min ts (int (write_space chan))) samples_to_read
      in if \<not> ndebug env \<and> to_read < 0 then Inl AssertionFailed
         else
           (case (if to_read \<noteq> 0 then audio_read env s chan ffa to_read chan_n reversed
                  else Inr (0, chan, ffa)) of
              Inl f \<Rightarrow> Inl f
            | Inr (r, chan', tmp) \<Rightarrow>
                if r \<noteq> 0 then Inr (- 1, chan' # rest, tmp)
                else
                  (case refill_channels env s ffa ts samples_to_read reversed (Suc chan_n)
                          rest tmp of
                     Inl f \<Rightarrow> Inl f
                   | Inr (r', rest', tmp') \<Rightarrow> Inr (r', chan' # rest', tmp'))))"

definition fill_with_silence :: "('m, 'p) DiskReader \<Rightarrow> ('m, 'p) DiskReader" where
  "fill_with_silence s =
     s\<lparr>channels := map (\<lambda>chan. write_zero chan (write_space chan)) (channels s)\<rparr>"

text \<open>
  \<open>refill_audio\<close>, in three parts. The last one: from the choice of the read size to
  the end, with \<open>total_space\<close> settled.
\<close>

definition refill_audio_read ::
  "('m, 'p, 'b) Collaborators \<Rightarrow> ('m, 'p) DiskReader \<Rightarrow> samplecnt \<Rightarrow>
   fatal + (int \<times> ('m, 'p) DiskReader)" where
  "refill_audio_read env s total_space =
     (if bits_per_sample env div 8 = 0 then Inl DivisionByZero
      else
        (let samples_to_read =
               uint (byte_size_for_read (total_bytes total_space (bits_per_sample env))
                       div (bits_per_sample env div 8))
         in case refill_channels env s (file_sample_audio s) total_space samples_to_read
                   (transport_speed env < 0) 0 (channels s) (file_sample_audio s) of
              Inl f \<Rightarrow> Inl f
            | Inr (r, chans, file_sample_tmp) \<Rightarrow>
                if r \<noteq> 0 then Inr (- 1, s\<lparr>channels := chans\<rparr>)
                else if \<not> ndebug env \<and> file_sample_tmp < 0 then Inl AssertionFailed
                else Inr (if chunk_samples env < total_space - samples_to_read then 1 else 0,
                          s\<lparr>channels := chans, file_sample_audio := file_sample_tmp\<rparr>)))"

text \<open>
  The middle part, with the space left after the \<open>fill_level\<close> reserve: the tests that
  give up (less than a chunk at normal speed, slaved with less than half the ring), the
  ends of the timeline (fill with silence), and the cut of \<open>total_space\<close> near them.
\<close>

definition refill_audio_space ::
  "('m, 'p, 'b) Collaborators \<Rightarrow> ('m, 'p) DiskReader \<Rightarrow> PlaybackBuffer \<Rightarrow> samplecnt \<Rightarrow>
   fatal + (int \<times> ('m, 'p) DiskReader)" where
  "refill_audio_space env s front space =
     (let reversed = transport_speed env < 0;
          ffa = file_sample_audio s
      in if space < chunk_samples env \<and> \<bar>transport_speed env\<bar> < 2 then Inr (0, s)
         else if slaved s \<and> space < int (bufsize front div 2) then Inr (0, s)
         else if reversed \<and> ffa = 0 then Inr (0, fill_with_silence s)
         else if \<not> reversed \<and> ffa = max_samplepos then Inr (0, fill_with_silence s)
         else refill_audio_read env s
                (if reversed then (if ffa < space then ffa else space)
                 else (if max_samplepos - space < ffa then max_samplepos - ffa else space)))"

text \<open>The beginning: nothing while loading, without channels, or without room.\<close>

definition refill_audio ::
  "('m, 'p, 'b) Collaborators \<Rightarrow> samplecnt \<Rightarrow> ('m, 'p) DiskReader \<Rightarrow>
   fatal + (int \<times> ('m, 'p) DiskReader)" where
  "refill_audio env fill_level s =
     (if loading env then Inr (0, s)
      else
        (case channels s of
           [] \<Rightarrow> Inr (0, s)
         | front # others \<Rightarrow>
             if write_space front = 0 then Inr (0, s)
             else refill_audio_space env s front
                    (if fill_level \<noteq> 0 \<and> fill_level < int (write_space front)
                     then int (write_space front) - fill_level
                     else int (write_space front))))"


subsection \<open>refill_midi\<close>

text \<open>
  \<open>midi_read\<close>. With a loop (and not reversed) the position is first squished into the
  inclusive range \<open>[loop_start, loop_end - 1]\<close> (\<open>Evoral::Range::squish\<close>, a parameter),
  and a read that reaches the loop end is shortened. The playlist writes into the ring
  and returns the count it has read.
\<close>

definition midi_effective_start ::
  "('m, 'p, 'b) Collaborators \<Rightarrow> (samplepos \<times> samplepos) option \<Rightarrow> samplepos \<Rightarrow> samplepos" where
  "midi_effective_start env loc effective_start =
     (case loc of
        Some (loop_start, loop_end) \<Rightarrow> squish env (loop_start, loop_end - 1) effective_start
      | None \<Rightarrow> effective_start)"

definition midi_this_read :: "(samplepos \<times> samplepos) option \<Rightarrow> samplepos \<Rightarrow> samplecnt \<Rightarrow> samplecnt" where
  "midi_this_read loc effective_start dur =
     (case loc of
        Some (loop_start, loop_end) \<Rightarrow>
          if loop_end - effective_start \<le> dur then loop_end - effective_start else dur
      | None \<Rightarrow> dur)"

definition midi_loop_range :: "(samplepos \<times> samplepos) option \<Rightarrow> (samplepos \<times> samplepos) option" where
  "midi_loop_range loc =
     (case loc of Some (loop_start, loop_end) \<Rightarrow> Some (loop_start, loop_end - 1) | None \<Rightarrow> None)"

function midi_read_loop ::
  "('m, 'p, 'b) Collaborators \<Rightarrow> (samplepos \<times> samplepos) option \<Rightarrow> bool \<Rightarrow> 'p \<Rightarrow> 'm \<Rightarrow>
   32 word \<Rightarrow> samplepos \<Rightarrow> samplepos \<Rightarrow> samplecnt \<Rightarrow> int \<times> 'p \<times> 'm \<times> 32 word \<times> samplepos" where
  "midi_read_loop env loc reversed p m written start effective_start dur =
     (if dur = 0
         \<or> midi_this_read loc (midi_effective_start env loc effective_start) dur = 0
      then (0, p, m, written, start)
      else if int (snd (snd (midi_playlist_read env p m
                  (midi_effective_start env loc effective_start)
                  (min dur (midi_this_read loc (midi_effective_start env loc effective_start) dur))
                  (midi_loop_range loc))))
              \<noteq> min dur (midi_this_read loc (midi_effective_start env loc effective_start) dur)
      then (- 1,
            fst (midi_playlist_read env p m (midi_effective_start env loc effective_start)
                  (min dur (midi_this_read loc (midi_effective_start env loc effective_start) dur))
                  (midi_loop_range loc)),
            fst (snd (midi_playlist_read env p m (midi_effective_start env loc effective_start)
                  (min dur (midi_this_read loc (midi_effective_start env loc effective_start) dur))
                  (midi_loop_range loc))),
            written, start)
      else midi_read_loop env loc reversed
             (fst (midi_playlist_read env p m (midi_effective_start env loc effective_start)
                  (min dur (midi_this_read loc (midi_effective_start env loc effective_start) dur))
                  (midi_loop_range loc)))
             (fst (snd (midi_playlist_read env p m (midi_effective_start env loc effective_start)
                  (min dur (midi_this_read loc (midi_effective_start env loc effective_start) dur))
                  (midi_loop_range loc))))
             (written + word_of_int
                (min dur (midi_this_read loc (midi_effective_start env loc effective_start) dur)))
             (if reversed then start
              else start
                + min dur (midi_this_read loc (midi_effective_start env loc effective_start) dur))
             (if reversed then midi_effective_start env loc effective_start
              else midi_effective_start env loc effective_start
                + min dur (midi_this_read loc (midi_effective_start env loc effective_start) dur))
             (dur - min dur (midi_this_read loc (midi_effective_start env loc effective_start) dur)))"
  by pat_completeness auto
termination
  apply (relation "measure (\<lambda>(env, loc, reversed, p, m, written, start, effective_start, dur).
           nat dur)")
   apply simp
  subgoal for env loc reversed p m written start effective_start dur
    by (cases "0 < min dur (midi_this_read loc (midi_effective_start env loc effective_start) dur)")
       auto
  done

declare midi_read_loop.simps [simp del]

text \<open>
  \<open>refill_midi\<close>. \<open>midi_read (ffm, to_read, reversed)\<close> starts with
  \<open>effective_start = start\<close>; its loop is entered with the loop location unless reversed.
\<close>

definition refill_midi ::
  "('m, 'p, 'b) Collaborators \<Rightarrow> ('m, 'p) DiskReader \<Rightarrow> int \<times> ('m, 'p) DiskReader" where
  "refill_midi env s =
     (case (playlist_midi s, midi_buf s) of
        (Some p, Some m) \<Rightarrow>
          (let reversed = transport_speed env < 0;
               ffm = file_sample_midi s;
               samples_read = samples_read_from_ringbuffer s;
               samples_written = samples_written_to_ringbuffer s
           in if midi_write_space env m = 0 then (0, s)
              else if reversed then (0, s)
              else if ffm = max_samplepos then (0, s)
              else if samples_read < samples_written
                      \<and> midi_readahead env \<le> uint (samples_written - samples_read)
              then (0, s)
              else
                (case midi_read_loop env (if reversed then None else loop_location s) reversed
                        p m samples_written ffm ffm
                        (min (min (midi_readahead env - (uint samples_written - uint samples_read))
                                (max_samplepos - ffm))
                           (int (midi_write_space env m))) of
                   (r, p', m', written', ffm') \<Rightarrow>
                     (if r \<noteq> 0 then - 1 else 0,
                      s\<lparr>midi_buf := Some m', playlist_midi := Some p',
                        file_sample_midi := ffm',
                        samples_written_to_ringbuffer := written'\<rparr>)))
      | _ \<Rightarrow> (0, s))"

text \<open>
  \<open>_do_refill_with_alloc\<close>, to which the header's \<open>do_refill_with_alloc\<close> forwards: the
  audio refill with freshly allocated working buffers, then the MIDI refill.
\<close>

definition do_refill_with_alloc ::
  "('m, 'p, 'b) Collaborators \<Rightarrow> bool \<Rightarrow> ('m, 'p) DiskReader \<Rightarrow>
   fatal + (int \<times> ('m, 'p) DiskReader)" where
  "do_refill_with_alloc env partial_fill s =
     (case refill_audio env (if partial_fill then chunk_samples env else 0) s of
        Inl f \<Rightarrow> Inl f
      | Inr (ret, s') \<Rightarrow> if ret \<noteq> 0 then Inr (ret, s') else Inr (refill_midi env s'))"

subsection \<open>seek\<close>

definition reset_tracker ::
  "('m, 'p, 'b) Collaborators \<Rightarrow> ('m, 'p) DiskReader \<Rightarrow> ('m, 'p) DiskReader" where
  "reset_tracker env s =
     s\<lparr>midi_buf := map_option (midi_reset_tracker env) (midi_buf s),
       playlist_midi := map_option (reset_note_trackers env) (playlist_midi s)\<rparr>"

text \<open>
  The first part of \<open>seek\<close>, up to the assignment of the three cursors: clear
  \<open>_pending_overwrite\<close>, reset every channel's ring, reset the trackers if nothing was read
  from the MIDI ring since the last seek, reset the MIDI ring and the two counters.
\<close>

definition seek_reset ::
  "('m, 'p, 'b) Collaborators \<Rightarrow> samplepos \<Rightarrow> ('m, 'p) DiskReader \<Rightarrow> ('m, 'p) DiskReader" where
  "seek_reset env sample s =
     (let s1 = s\<lparr>pending_overwrite := False, channels := map rb_reset (channels s)\<rparr>;
          s2 = (if samples_read_from_ringbuffer s1 = 0 then reset_tracker env s1 else s1)
      in s2\<lparr>midi_buf := map_option (midi_reset env) (midi_buf s2),
            samples_read_from_ringbuffer := 0,
            samples_written_to_ringbuffer := 0,
            playback_sample := sample,
            file_sample_audio := sample,
            file_sample_midi := sample\<rparr>)"

text \<open>
  \<^verbatim>\<open>while ((ret = do_refill_with_alloc (false)) > 0) ;\<close> The loop ends when a refill
  returns 0 or less, or dies; \<open>None\<close> is a loop that never ends.
\<close>

definition refill_again :: "fatal + (int \<times> ('m, 'p) DiskReader) \<Rightarrow> bool" where
  "refill_again r = (case r of Inl f \<Rightarrow> False | Inr (ret, s') \<Rightarrow> 0 < ret)"

definition refilled ::
  "('m, 'p) DiskReader \<Rightarrow> fatal + (int \<times> ('m, 'p) DiskReader) \<Rightarrow> ('m, 'p) DiskReader" where
  "refilled s r = (case r of Inl f \<Rightarrow> s | Inr (ret, s') \<Rightarrow> s')"

partial_function (option) refill_completely ::
  "('m, 'p, 'b) Collaborators \<Rightarrow> ('m, 'p) DiskReader \<Rightarrow>
   (fatal + (int \<times> ('m, 'p) DiskReader)) option" where
  "refill_completely env s =
     (if refill_again (do_refill_with_alloc env False s)
      then refill_completely env (refilled s (do_refill_with_alloc env False s))
      else Some (do_refill_with_alloc env False s))"

text \<open>
  \<open>seek\<close>. In a build without \<open>NDEBUG\<close> a seek to the current position that asks for
  no complete refill returns 0 at once.
\<close>

definition seek ::
  "('m, 'p, 'b) Collaborators \<Rightarrow> samplepos \<Rightarrow> bool \<Rightarrow> ('m, 'p) DiskReader \<Rightarrow>
   (fatal + (int \<times> ('m, 'p) DiskReader)) option" where
  "seek env sample complete_refill s =
     (if \<not> ndebug env \<and> sample = playback_sample s \<and> \<not> complete_refill then Some (Inr (0, s))
      else if complete_refill then refill_completely env (seek_reset env sample s)
      else Some (do_refill_with_alloc env True (seek_reset env sample s)))"


subsection \<open>run\<close>

definition can_internal_playback_seek ::
  "('m, 'p, 'b) Collaborators \<Rightarrow> ('m, 'p) DiskReader \<Rightarrow> int \<Rightarrow> bool" where
  "can_internal_playback_seek env s distance =
     (if \<not> list_all (\<lambda>chan. can_seek env chan distance) (channels s) then False
      else if distance < 0 then True
      else uint (samples_written_to_ringbuffer s - samples_read_from_ringbuffer s) < distance)"

text \<open>The loop of \<open>internal_playback_seek\<close>: \<open>off\<close> is what the last channel moved by.\<close>

fun seek_channels ::
  "('m, 'p, 'b) Collaborators \<Rightarrow> int \<Rightarrow> PlaybackBuffer list \<Rightarrow> int \<Rightarrow> PlaybackBuffer list \<times> int" where
  "seek_channels env distance [] off = ([], off)"
| "seek_channels env distance (chan # rest) off =
     (let moved = (if distance < 0 then decrement_read_ptr env chan (to_guint \<bar>distance\<bar>)
                   else increment_read_ptr chan (to_guint distance));
          tail = seek_channels env distance rest
                   (if distance < 0 then 0 - int (snd moved) else int (snd moved))
      in (fst moved # fst tail, snd tail))"

definition internal_playback_seek ::
  "('m, 'p, 'b) Collaborators \<Rightarrow> ('m, 'p) DiskReader \<Rightarrow> int \<Rightarrow> ('m, 'p) DiskReader" where
  "internal_playback_seek env s distance =
     (if distance = 0 then s
      else
        (let moved = seek_channels env distance (channels s) distance
         in s\<lparr>channels := fst moved, playback_sample := playback_sample s + snd moved\<rparr>))"

text \<open>
  What \<open>run\<close> does with the data of one channel once it is in \<open>disk_buf\<close>: the declick
  ramp, the scaling gain, and, when the input is monitored too, the mix into the output.
  \<open>disk_buf\<close> is the output buffer itself unless the input is monitored. The gain
  functions compute in 32-bit floats and are parameters.
\<close>

definition deliver_channel ::
  "('m, 'p, 'b) Collaborators \<Rightarrow> nat \<Rightarrow> gain_t \<Rightarrow> MonitorState \<Rightarrow> gain_t \<Rightarrow> nat \<Rightarrow>
   Sample list \<Rightarrow> ('m, 'p) DiskReader \<Rightarrow> 'b BufferSet \<Rightarrow> ('m, 'p) DiskReader \<times> 'b BufferSet" where
  "deliver_channel env nframes target_gain ms scaling out disk_buf s bufs =
     (let ramped = declick_apply_gain env (declick_gain s) disk_buf nframes target_gain;
          scaled = apply_simple_gain env (fst ramped) nframes scaling
      in (s\<lparr>declick_gain := snd ramped\<rparr>,
          bufs\<lparr>audio := (audio bufs)
                 [out := (if mon_input ms
                          then mix_buffers_no_gain env (audio bufs ! out) scaled nframes
                          else scaled)]\<rparr>))"

text \<open>
  The body of the loop over the channels, for channel \<open>n\<close>. The result tells whether
  \<open>run\<close> has returned (the underrun) or goes on. \<open>n % n_buffers\<close> with no audio buffer
  is a division by zero; a seek that the rings cannot do ends in \<open>abort ()\<close>.
\<close>

definition read_channel ::
  "('m, 'p, 'b) Collaborators \<Rightarrow> samplepos \<Rightarrow> real \<Rightarrow> nat \<Rightarrow> gain_t \<Rightarrow> MonitorState \<Rightarrow> gain_t \<Rightarrow>
   nat \<Rightarrow> ('m, 'p) DiskReader \<Rightarrow> 'b BufferSet \<Rightarrow>
   fatal + (bool \<times> ('m, 'p) DiskReader \<times> 'b BufferSet)" where
  "read_channel env start_sample speed nframes target_gain ms scaling n s bufs =
     (if length (audio bufs) = 0 then Inl DivisionByZero
      else if start_sample \<noteq> playback_sample s \<and> target_gain \<noteq> 0
              \<and> \<not> can_internal_playback_seek env s (start_sample - playback_sample s)
      then Inl Abort
      else
        (let s1 = (if start_sample \<noteq> playback_sample s \<and> target_gain \<noteq> 0
                   then internal_playback_seek env s (start_sample - playback_sample s)
                   else s);
             out = n mod length (audio bufs);
             disk_buf = (if mon_input ms then scratch_audio env n else audio bufs ! out)
         in if speed \<noteq> 0
            then
              (let got = rb_read (channels s1 ! n) nframes;
                   s2 = s1\<lparr>channels := (channels s1)[n := snd got]\<rparr>;
                   disk_buf1 = fst got @ drop (length (fst got)) disk_buf
               in if length (fst got) < nframes
                  then Inr (True, s2\<lparr>underruns := Suc (underruns s2)\<rparr>,
                            (if mon_input ms then bufs
                             else bufs\<lparr>audio := (audio bufs)[out := disk_buf1]\<rparr>))
                  else Inr (False,
                            deliver_channel env nframes target_gain ms scaling out disk_buf1
                              s2 bufs))
            else if declick_gain s1 \<noteq> target_gain
            then
              (if \<not> ndebug env \<and> target_gain \<noteq> 0 then Inl AssertionFailed
               else
                 (let got = rb_peek (channels s1 ! n) nframes (to_guint (declick_offs s1));
                      s2 = s1\<lparr>declick_offs := declick_offs s1 + int (length got)\<rparr>
                  in Inr (False,
                          deliver_channel env nframes target_gain ms scaling out
                            (got @ drop (length got) disk_buf) s2 bufs)))
            else Inr (False,
                      deliver_channel env nframes target_gain ms scaling out disk_buf s1 bufs)))"

text \<open>The loop: channels \<open>ns\<close> in turn, as long as \<open>run\<close> has neither returned nor died.\<close>

fun read_channels ::
  "('m, 'p, 'b) Collaborators \<Rightarrow> samplepos \<Rightarrow> real \<Rightarrow> nat \<Rightarrow> gain_t \<Rightarrow> MonitorState \<Rightarrow> gain_t \<Rightarrow>
   nat list \<Rightarrow> ('m, 'p) DiskReader \<Rightarrow> 'b BufferSet \<Rightarrow>
   fatal + (bool \<times> ('m, 'p) DiskReader \<times> 'b BufferSet)" where
  "read_channels env start_sample speed nframes target_gain ms scaling [] s bufs =
     Inr (False, s, bufs)"
| "read_channels env start_sample speed nframes target_gain ms scaling (n # ns) s bufs =
     (case read_channel env start_sample speed nframes target_gain ms scaling n s bufs of
        Inl f \<Rightarrow> Inl f
      | Inr (returned, s', bufs') \<Rightarrow>
          if returned then Inr (True, s', bufs')
          else read_channels env start_sample speed nframes target_gain ms scaling ns s' bufs')"


text \<open>
  The end of \<open>run\<close>, from the label \<open>midi\<close> on: the MIDI pull, which works on the MIDI
  ring and is a parameter (its first argument tells whether the destination is the
  scratch buffer), then the advance of \<open>playback_sample\<close> and the decision whether the
  butler is needed.
\<close>

definition run_midi ::
  "('m, 'p, 'b) Collaborators \<Rightarrow> samplepos \<Rightarrow> samplepos \<Rightarrow> real \<Rightarrow> samplecnt \<Rightarrow> MonitorState \<Rightarrow>
   bool \<Rightarrow> ('m, 'p) DiskReader \<Rightarrow> 'b BufferSet \<Rightarrow> ('m, 'p) DiskReader \<times> 'b BufferSet" where
  "run_midi env start_sample end_sample speed disk_samples_to_consume ms still_locating s bufs =
     (let pulled =
            (if midi bufs \<noteq> [] \<and> midi_buf s \<noteq> None \<and> mon_disk ms \<and> \<not> still_locating
             then get_midi_playback env (no_disk_output env) start_sample end_sample ms speed
                    disk_samples_to_consume (s, bufs)
             else (s, bufs));
          s1 = fst pulled
      in if still_locating then pulled
         else
           (let audio_needs =
                  (playlist_audio s1 \<and>
                   (case channels s1 of
                      [] \<Rightarrow> False
                    | front # others \<Rightarrow>
                        if slaved s1 then bufsize front div 2 \<le> write_space front
                        else chunk_samples env \<le> int (write_space front)));
                midi_needs =
                  (playlist_midi s1 \<noteq> None \<and>
                   (if samples_read_from_ringbuffer s1 \<le> samples_written_to_ringbuffer s1
                    then uint (samples_written_to_ringbuffer s1 - samples_read_from_ringbuffer s1)
                           + disk_samples_to_consume < midi_readahead env
                    else True))
            in (s1\<lparr>playback_sample :=
                      (if speed < 0 then playback_sample s1 - disk_samples_to_consume
                       else playback_sample s1 + disk_samples_to_consume),
                    need_butler := audio_needs \<or> midi_needs\<rparr>,
                snd pulled)))"

text \<open>
  The audio part, entered with at least one channel. A fade-out in progress forces the
  disk path. Without need for disk data the read pointers only advance and the buffers
  may be silenced.
\<close>

definition run_audio ::
  "('m, 'p, 'b) Collaborators \<Rightarrow> samplepos \<Rightarrow> real \<Rightarrow> nat \<Rightarrow> bool \<Rightarrow> gain_t \<Rightarrow> MonitorState \<Rightarrow>
   bool \<Rightarrow> ('m, 'p) DiskReader \<Rightarrow> 'b BufferSet \<Rightarrow>
   fatal + (bool \<times> MonitorState \<times> ('m, 'p) DiskReader \<times> 'b BufferSet)" where
  "run_audio env start_sample speed nframes result_required target_gain ms still_locating s bufs =
     (let fade_out = (declick_gain s \<noteq> target_gain \<and> target_gain = 0);
          ms1 = (if fade_out then ms\<lparr>mon_disk := True\<rparr> else ms);
          s1 = (if fade_out then s else s\<lparr>declick_offs := 0\<rparr>);
          disk_samples_to_consume = (if speed = 0 then 0 else int nframes)
      in if fade_out \<and> \<not> ndebug env \<and> \<not> result_required then Inl AssertionFailed
         else if \<not> (fade_out \<or> result_required) \<or> \<not> mon_disk ms1 \<or> still_locating
                 \<or> no_disk_output env
         then Inr (False, ms1,
                   (if \<not> still_locating \<or> no_disk_output env
                    then s1\<lparr>channels :=
                            map (\<lambda>chan. fst (increment_read_ptr chan
                                   (to_guint disk_samples_to_consume))) (channels s1)\<rparr>
                    else s1),
                   (if (no_disk_output env \<or> still_locating) \<and> mon_disk ms1 \<and> \<not> mon_input ms1
                    then silence env bufs nframes else bufs))
         else
           (case read_channels env start_sample speed nframes target_gain ms1
                   (if length (audio bufs) < length (channels s1)
                    then real (length (audio bufs)) / real (length (channels s1)) else 1)
                   [0..<length (channels s1)] s1 bufs of
              Inl f \<Rightarrow> Inl f
            | Inr (returned, s', bufs') \<Rightarrow> Inr (returned, ms1, s', bufs')))"

text \<open>
  \<open>DiskReader::run\<close>. \<open>set_gain\<close> of the declick ramp stores the gain. The speed is
  asserted to be -1, 0 or 1.
\<close>

definition run ::
  "('m, 'p, 'b) Collaborators \<Rightarrow> 'b BufferSet \<Rightarrow> samplepos \<Rightarrow> samplepos \<Rightarrow> real \<Rightarrow> nat \<Rightarrow> bool \<Rightarrow>
   ('m, 'p) DiskReader \<Rightarrow> fatal + (('m, 'p) DiskReader \<times> 'b BufferSet)" where
  "run env bufs start_sample end_sample speed nframes result_required s =
     (let ms = monitoring_state env
      in if active s \<and> \<not> pending_active s then Inr (s\<lparr>active := False\<rparr>, bufs)
         else if \<not> active s \<and> \<not> pending_active s then Inr (s, bufs)
         else
           (let target_gain = (if speed = 0 \<or> \<not> mon_disk ms then 0 else 1);
                s1 = (if use_transport_fades env then s\<lparr>active := True\<rparr>
                      else s\<lparr>active := True, declick_gain := target_gain\<rparr>);
                still_locating = (global_locate_pending env \<or> pending_overwrite s1);
                disk_samples_to_consume = (if speed = 0 then 0 else int nframes)
            in if speed = 0 \<and> mon_disk ms \<and> \<not> mon_input ms \<and> declick_gain s1 = target_gain
               then Inr (s1, bufs)
               else if \<not> ndebug env \<and> speed \<noteq> - 1 \<and> speed \<noteq> 0 \<and> speed \<noteq> 1
               then Inl AssertionFailed
               else if channels s1 = []
               then Inr (run_midi env start_sample end_sample speed disk_samples_to_consume ms
                           still_locating s1 bufs)
               else
                 (case run_audio env start_sample speed nframes result_required target_gain ms
                         still_locating s1 bufs of
                    Inl f \<Rightarrow> Inl f
                  | Inr (returned, ms1, s2, bufs2) \<Rightarrow>
                      if returned then Inr (s2, bufs2)
                      else Inr (run_midi env start_sample end_sample speed
                                  disk_samples_to_consume ms1 still_locating s2 bufs2))))"


declare refill_completely.simps [code]

text \<open>
  What a refill leaves alone and which way it moves the file cursors: the flags, the
  playback position, the loop and the read side of every ring stay; in reverse
  \<open>file_sample[AUDIO]\<close> does not grow and the MIDI side is untouched, forward
  \<open>file_sample[MIDI]\<close> does not shrink, nor does \<open>file_sample[AUDIO]\<close> without a loop.
\<close>

definition refill_keeps ::
  "('m, 'p, 'b) Collaborators \<Rightarrow> ('m, 'p) DiskReader \<Rightarrow> ('m, 'p) DiskReader \<Rightarrow> bool" where
  "refill_keeps env s s' =
     (pending_overwrite s' = pending_overwrite s \<and> playback_sample s' = playback_sample s
      \<and> samples_read_from_ringbuffer s' = samples_read_from_ringbuffer s
      \<and> loop_location s' = loop_location s
      \<and> map read_idx (channels s') = map read_idx (channels s)
      \<and> map bufsize (channels s') = map bufsize (channels s)
      \<and> (if transport_speed env < 0
          then file_sample_audio s' \<le> file_sample_audio s
               \<and> file_sample_midi s' = file_sample_midi s
               \<and> midi_buf s' = midi_buf s \<and> playlist_midi s' = playlist_midi s
          else file_sample_midi s \<le> file_sample_midi s'
               \<and> (loop_location s = None \<longrightarrow> file_sample_audio s \<le> file_sample_audio s')))"

definition refill_keeps_result ::
  "('m, 'p, 'b) Collaborators \<Rightarrow> ('m, 'p) DiskReader \<Rightarrow>
   fatal + (int \<times> ('m, 'p) DiskReader) \<Rightarrow> bool" where
  "refill_keeps_result env s r = (case r of Inl f \<Rightarrow> True | Inr (ret, s') \<Rightarrow> refill_keeps env s s')"

subsection \<open>DeclickAmp\<close>

text \<open>
  The fade of the declick. \<open>gain_t\<close> and \<open>Sample\<close> are \<open>float\<close>; the model computes on
  reals and takes the rounding to \<open>float\<close> as the parameter \<open>rnd\<close>, applied to the result of
  every operation that the source performs on floats. \<open>amp_a\<close> and \<open>amp_g\<close> are \<open>_a\<close> and
  \<open>_g\<close>; \<open>_l\<close> is left out, since only the branch that is compiled out (\<open>#if 1\<close>) reads it.
\<close>

record DeclickAmp =
  amp_a :: gain_t
  amp_g :: gain_t

text \<open>
  \<^verbatim>\<open>_a = 4550.f / (gain_t)sample_rate; _g = 0;\<close> A rate that converts to 0 makes the
  quotient infinite, which the reals do not have: \<open>None\<close>.
\<close>

definition DeclickAmp_new :: "(real \<Rightarrow> real) \<Rightarrow> samplecnt \<Rightarrow> DeclickAmp option" where
  "DeclickAmp_new rnd sample_rate =
     (if rnd (real_of_int sample_rate) = 0 then None
      else Some \<lparr>amp_a = rnd (4550 / rnd (real_of_int sample_rate)), amp_g = 0\<rparr>)"

text \<open>
  \<^verbatim>\<open>for (i = 0; i < n_proc; ++i) buffer[offset + i] *= g;\<close> The caller passes a buffer that
  holds \<open>n_samples\<close>; positions beyond the list are not there to be scaled.
\<close>

definition scale_block :: "(real \<Rightarrow> real) \<Rightarrow> Sample list \<Rightarrow> nat \<Rightarrow> nat \<Rightarrow> gain_t \<Rightarrow> Sample list" where
  "scale_block rnd buffer offset n_proc g =
     map (\<lambda>(i, x). if offset \<le> i \<and> i < offset + n_proc then rnd (x * g) else x)
       (enumerate 0 buffer)"

text \<open>
  The loop \<open>while (remain > 0)\<close>: blocks of \<open>MAX_NPROC = 16\<close> samples, the last one shorter,
  and one update \<^verbatim>\<open>g += a * (target - g)\<close> after each block.
\<close>

function apply_gain_loop ::
  "(real \<Rightarrow> real) \<Rightarrow> gain_t \<Rightarrow> gain_t \<Rightarrow> Sample list \<Rightarrow> gain_t \<Rightarrow> nat \<Rightarrow> nat \<Rightarrow>
   Sample list \<times> gain_t" where
  "apply_gain_loop rnd a tgt buffer g offset remain =
     (if remain = 0 then (buffer, g)
      else apply_gain_loop rnd a tgt
             (scale_block rnd buffer offset (if 16 < remain then 16 else remain) g)
             (rnd (g + rnd (a * rnd (tgt - g))))
             (offset + (if 16 < remain then 16 else remain))
             (remain - (if 16 < remain then 16 else remain)))"
  by pat_completeness auto
termination
  by (relation "measure (\<lambda>(rnd, a, tgt, buffer, g, offset, remain). remain)") auto

declare apply_gain_loop.simps [simp del]

text \<open>
  \<open>apply_gain\<close>. Nothing for no samples; \<open>Amp::apply_simple_gain\<close>, which is outside the
  sources and a parameter here, when the gain has reached the target; else the loop on
  \<open>uint32_t remain = n_samples\<close>, and then \<open>_g\<close> is the target if
  \<^verbatim>\<open>fabsf (g - target) < 1e-5\<close> and \<open>g\<close> if not. No \<open>float\<close> lies between the \<open>double\<close>
  \<open>1e-5\<close> and the real number, so the comparison is the one on reals.
\<close>

definition apply_gain ::
  "(real \<Rightarrow> real) \<Rightarrow> (Sample list \<Rightarrow> samplecnt \<Rightarrow> gain_t \<Rightarrow> Sample list) \<Rightarrow> DeclickAmp \<Rightarrow>
   Sample list \<Rightarrow> samplecnt \<Rightarrow> gain_t \<Rightarrow> Sample list \<times> DeclickAmp" where
  "apply_gain rnd simple_gain amp buf n_samples tgt =
     (if n_samples = 0 then (buf, amp)
      else if amp_g amp = tgt then (simple_gain buf n_samples tgt, amp)
      else
        (case apply_gain_loop rnd (amp_a amp) tgt buf (amp_g amp) 0 (to_guint n_samples) of
           (buf', g) \<Rightarrow>
             (buf', amp\<lparr>amp_g := (if \<bar>rnd (g - tgt)\<bar> < 1 / 100000 then tgt else g)\<rparr>)))"

text \<open>One call on a buffer with its length, keeping the amplifier.\<close>

definition declick_call ::
  "(real \<Rightarrow> real) \<Rightarrow> (Sample list \<Rightarrow> samplecnt \<Rightarrow> gain_t \<Rightarrow> Sample list) \<Rightarrow> gain_t \<Rightarrow>
   DeclickAmp \<Rightarrow> Sample list \<times> samplecnt \<Rightarrow> DeclickAmp" where
  "declick_call rnd simple_gain tgt amp c =
     snd (apply_gain rnd simple_gain amp (fst c) (snd c) tgt)"

text \<open>
  What is asked of the rounding: it is monotone, leaves its own results alone, commutes
  with negation, is exact on 1 and on 4550, and on \<open>[tiny, huge]\<close> its relative error is
  at most \<open>eps\<close>. Rounding to nearest in IEEE single precision is of this kind, with \<open>eps\<close>
  \<open>2\<^sup>-\<^sup>2\<^sup>4\<close> on the range of the normal numbers.
\<close>

definition rounding :: "(real \<Rightarrow> real) \<Rightarrow> real \<Rightarrow> real \<Rightarrow> real \<Rightarrow> bool" where
  "rounding rnd eps tiny huge =
     ((\<forall>x y. x \<le> y \<longrightarrow> rnd x \<le> rnd y) \<and> (\<forall>x. rnd (rnd x) = rnd x)
      \<and> (\<forall>x. rnd (- x) = - rnd x) \<and> rnd 1 = 1 \<and> rnd 4550 = 4550
      \<and> (\<forall>x. tiny \<le> x \<and> x \<le> huge \<longrightarrow> \<bar>rnd x - x\<bar> \<le> eps * x))"

text \<open>
  The conditions on the coefficient \<open>a\<close> under which a block update contracts the gain by
  \<open>1 - 9/10 a\<close>, and the state of a fade towards 0 after a number of blocks.
\<close>

definition fade_conditions :: "(real \<Rightarrow> real) \<Rightarrow> real \<Rightarrow> real \<Rightarrow> real \<Rightarrow> real \<Rightarrow> bool" where
  "fade_conditions rnd eps tiny huge a =
     (rounding rnd eps tiny huge \<and> 0 \<le> a \<and> a \<le> 1 \<and> 0 \<le> eps \<and> eps \<le> 1 / 100
      \<and> 11 * eps \<le> a \<and> 0 < tiny \<and> (1 + eps) * tiny < 1 / 100000 \<and> tiny * 100000 \<le> a
      \<and> 1 \<le> huge)"

definition fading :: "(real \<Rightarrow> real) \<Rightarrow> real \<Rightarrow> nat \<Rightarrow> DeclickAmp \<Rightarrow> bool" where
  "fading rnd a blocks amp =
     (amp_a amp = a \<and> rnd (amp_g amp) = amp_g amp \<and> 0 \<le> amp_g amp \<and> amp_g amp \<le> 1
      \<and> (amp_g amp = 0
          \<or> 1 / 100000 \<le> amp_g amp \<and> amp_g amp \<le> (1 - 9 / 10 * a) ^ blocks))"

subsection \<open>Instances\<close>

text \<open>Concrete collaborators, rings, readers and buffers: a ring of 8 slots, a chunk of 2
  samples, a playlist that reads silence.\<close>

definition env_0 :: "(unit, unit, unit) Collaborators" where
  "env_0 =
     \<lparr>loading = False, transport_speed = 1, global_locate_pending = False,
      use_transport_fades = True, bits_per_sample = 32,
      monitoring_state = \<lparr>mon_input = False, mon_disk = True\<rparr>,
      no_disk_output = False, chunk_samples = 2, midi_readahead = 4096, ndebug = True,
      audio_playlist_read = (\<lambda>start cnt channel. replicate (nat cnt) 0),
      midi_playlist_read = (\<lambda>p m start cnt range. (p, m, nat cnt)),
      reset_note_trackers = (\<lambda>p. p), midi_reset = (\<lambda>m. m), midi_reset_tracker = (\<lambda>m. m),
      midi_write_space = (\<lambda>m. 0), squish = (\<lambda>range pos. pos),
      can_seek = (\<lambda>rb distance. False), decrement_read_ptr = (\<lambda>rb cnt. (rb, 0)),
      declick_apply_gain = (\<lambda>g buf n target_gain. (buf, target_gain)),
      apply_simple_gain = (\<lambda>buf n g. buf), mix_buffers_no_gain = (\<lambda>dst src n. dst),
      scratch_audio = (\<lambda>n. replicate 8 0), silence = (\<lambda>bufs n. bufs),
      get_midi_playback = (\<lambda>scratch start_sample end_sample ms speed cnt sb. sb)\<rparr>"

definition ring_0 :: "nat \<Rightarrow> nat \<Rightarrow> PlaybackBuffer" where
  "ring_0 r w = \<lparr>bufsize = 8, read_idx = r, write_idx = w, storage = replicate 8 0\<rparr>"

definition reader_0 :: "PlaybackBuffer list \<Rightarrow> (unit, unit) DiskReader" where
  "reader_0 rings =
     \<lparr>active = False, pending_active = False, channels = rings, midi_buf = None,
      playlist_audio = True, playlist_midi = None, file_sample_audio = 0,
      file_sample_midi = 0, playback_sample = 0, pending_overwrite = True,
      samples_read_from_ringbuffer = 0, samples_written_to_ringbuffer = 0,
      declick_gain = 1, declick_offs = 0, need_butler = False, slaved = False,
      loop_location = None, underruns = 0\<rparr>"

definition bufs_0 :: "unit BufferSet" where
  "bufs_0 = \<lparr>audio = [replicate 8 0], midi = []\<rparr>"

definition reader_1 :: "(unit, unit) DiskReader" where
  "reader_1 =
     (reader_0 [ring_0 0 4, ring_0 0 1])\<lparr>pending_active := True, pending_overwrite := False\<rparr>"

definition reader_1_after :: "(unit, unit) DiskReader" where
  "reader_1_after =
     (reader_0 [ring_0 2 4, ring_0 1 1])\<lparr>active := True, pending_active := True,
        pending_overwrite := False, underruns := 1\<rparr>"




text \<open>
  A reader with a MIDI ring. The ring is the number of samples read into it and holds
  64; the playlist is the state of its note trackers, 0 once reset.
\<close>

definition env_1 :: "(nat, nat, unit) Collaborators" where
  "env_1 =
     \<lparr>loading = False, transport_speed = 1, global_locate_pending = False,
      use_transport_fades = True, bits_per_sample = 32,
      monitoring_state = \<lparr>mon_input = False, mon_disk = True\<rparr>,
      no_disk_output = False, chunk_samples = 2, midi_readahead = 16, ndebug = True,
      audio_playlist_read = (\<lambda>start cnt channel. replicate (nat cnt) 0),
      midi_playlist_read = (\<lambda>p m start cnt range. (p, m + nat cnt, nat cnt)),
      reset_note_trackers = (\<lambda>p. 0), midi_reset = (\<lambda>m. 0), midi_reset_tracker = (\<lambda>m. m),
      midi_write_space = (\<lambda>m. 64 - m), squish = (\<lambda>range pos. pos),
      can_seek = (\<lambda>rb distance. False), decrement_read_ptr = (\<lambda>rb cnt. (rb, 0)),
      declick_apply_gain = (\<lambda>g buf n target_gain. (buf, target_gain)),
      apply_simple_gain = (\<lambda>buf n g. buf), mix_buffers_no_gain = (\<lambda>dst src n. dst),
      scratch_audio = (\<lambda>n. replicate 8 0), silence = (\<lambda>bufs n. bufs),
      get_midi_playback = (\<lambda>scratch start_sample end_sample ms speed cnt sb. sb)\<rparr>"

definition reader_2 :: "(nat, nat) DiskReader" where
  "reader_2 =
     \<lparr>active = True, pending_active = True, channels = [ring_0 3 5], midi_buf = Some 7,
      playlist_audio = True, playlist_midi = Some 3, file_sample_audio = 40,
      file_sample_midi = 40, playback_sample = 40, pending_overwrite = True,
      samples_read_from_ringbuffer = 0, samples_written_to_ringbuffer = 7,
      declick_gain = 0, declick_offs = 0, need_butler = False, slaved = False,
      loop_location = None, underruns = 0\<rparr>"

definition reader_2_forward :: "(nat, nat) DiskReader" where
  "reader_2_forward =
     reader_2\<lparr>channels := [ring_0 0 5], midi_buf := Some 16, playlist_midi := Some 0,
       file_sample_audio := 105, file_sample_midi := 116, playback_sample := 100,
       pending_overwrite := False, samples_written_to_ringbuffer := 16\<rparr>"

definition reader_2_reverse :: "(nat, nat) DiskReader" where
  "reader_2_reverse =
     reader_2\<lparr>channels := [ring_0 0 5], midi_buf := Some 0, playlist_midi := Some 0,
       file_sample_audio := 95, file_sample_midi := 100, playback_sample := 100,
       pending_overwrite := False, samples_written_to_ringbuffer := 0\<rparr>"

text \<open>Exact arithmetic in place of the rounding, and a plain scaling of the buffer.\<close>

definition exact :: "real \<Rightarrow> real" where
  "exact x = x"

definition scale :: "Sample list \<Rightarrow> samplecnt \<Rightarrow> gain_t \<Rightarrow> Sample list" where
  "scale buf n_samples g = map (\<lambda>x. x * g) buf"

section \<open>Properties of Beats\<close>

lemma sint_word_of_int32:
  "- (2 ^ 31) \<le> z \<Longrightarrow> z < 2 ^ 31 \<Longrightarrow> sint (word_of_int z :: int32) = z"
  by (simp add: sint_sbintrunc' signed_take_bit_int_eq_self)

lemma double_to_int32_Some:
  "double_to_int32 x = Some w \<Longrightarrow> sint w = c_trunc x"
  by (auto simp: double_to_int32_def Let_def sint_word_of_int32 split: if_splits)

text \<open>
  On non-negative fields normalization carries the whole beats out of the ticks: the
  tick value is kept and the ticks end below \<open>PPQN\<close>.
\<close>

lemma sint_succ: "sint (b :: int32) + 1 < 2 ^ 31 \<Longrightarrow> sint (b + 1) = sint b + 1"
  using sint_ge [of b]
  by (simp add: sint_word_ariths signed_take_bit_int_eq_self)

lemma div_step: "(x :: int) div 1920 = (x - 1920) div 1920 + 1"
  using div_add_self2 [of 1920 "x - 1920"] by simp

lemma mod_step: "((x :: int) - 1920) mod 1920 = x mod 1920"
  using mod_add_self2 [of "x - 1920" 1920] by simp


lemma reduce_ticks_nonneg:
  "0 \<le> sint t \<Longrightarrow> sint b + sint t div 1920 < 2 ^ 31 \<Longrightarrow>
   reduce_ticks b t = (b', t') \<Longrightarrow>
   sint b' = sint b + sint t div 1920 \<and> sint t' = sint t mod 1920"
proof (induction b t arbitrary: b' t' rule: reduce_ticks.induct)
  case (1 beats ticks)
  show ?case
  proof (cases "PPQN \<le>s ticks")
    case True
    then have ge: "1920 \<le> sint ticks"
      by (simp add: word_sle_eq PPQN_def)
    have t1: "sint (ticks - PPQN) = sint ticks - 1920"
      using True by (rule sint_sub_PPQN)
    note dv = div_step [of "sint ticks"]
    note md = mod_step [of "sint ticks"]
    have pos: "0 \<le> (sint ticks - 1920) div 1920"
      using ge by simp
    have b1: "sint (beats + 1) = sint beats + 1"
      using "1.prems"(2) dv pos by (intro sint_succ) linarith
    have rec: "reduce_ticks (beats + 1) (ticks - PPQN) = (b', t')"
      using "1.prems"(3) True by (simp add: reduce_ticks.simps [of beats ticks])
    have p1: "0 \<le> sint (ticks - PPQN)"
      using t1 ge by simp
    have p2: "sint (beats + 1) + sint (ticks - PPQN) div 1920 < 2 ^ 31"
      using "1.prems"(2) dv b1 t1 by simp
    from "1.IH" [OF True p1 p2 rec] show ?thesis
      using t1 b1 dv md by simp
  next
    case False
    then have "sint ticks < 1920"
      by (simp add: word_sle_eq PPQN_def)
    with False "1.prems" show ?thesis
      by (simp add: reduce_ticks.simps [of beats ticks])
  qed
qed

lemma normalize_nonneg:
  assumes "0 \<le> sint b" "0 \<le> sint t" "sint b + sint t div 1920 < 2 ^ 31"
  shows "to_ticks (Beats_bt b t) = sint b * 1920 + sint t
         \<and> 0 \<le> sint (m_ticks (Beats_bt b t)) \<and> sint (m_ticks (Beats_bt b t)) < 1920
         \<and> 0 \<le> sint (m_beats (Beats_bt b t))"
proof -
  have b0: "0 \<le>s b" and nb: "\<not> b <s 0" and nt: "\<not> t <s 0"
    using assms(1,2) by (simp_all add: word_sle_eq word_sless_alt)
  have borrow: "fix_negative_ticks b t = (b, t)"
    using nt by (simp add: fix_negative_ticks.simps [of b t])
  obtain b' t' where red: "reduce_ticks b t = (b', t')"
    by (cases "reduce_ticks b t")
  from reduce_ticks_nonneg [OF assms(2,3) red]
  have r: "sint b' = sint b + sint t div 1920" "sint t' = sint t mod 1920"
    by simp_all
  have val: "Beats_bt b t = \<lparr>m_beats = b', m_ticks = t'\<rparr>"
    using b0 nb nt borrow red by (simp add: Beats_bt_def normalize_def abs_int32_def)
  have "(sint b + sint t div 1920) * 1920 + sint t mod 1920 = sint b * 1920 + sint t"
    by (simp add: algebra_simps)
  with r assms(1,2) show ?thesis
    by (simp add: val to_ticks_def PPQN_def pos_imp_zdiv_nonneg_iff)
qed


text \<open>
  C4. Normalization is to keep the tick value \<open>beats * PPQN + ticks\<close>, as it does on
  non-negative fields. At \<open>Beats(0, -1)\<close> the first loop, which is meant for positive
  beats, borrows a beat from zero beats, giving (-1, 1919); the sign is then read from
  the borrowed beats and applied to both fields: the result is (-1, -1919), whose tick
  value is -3839 and not -1.
\<close>

theorem normalize_zero_beats_negative_tick:
  "Beats_bt 0 (- 1) = \<lparr>m_beats = - 1, m_ticks = - 1919\<rparr>
   \<and> to_ticks (Beats_bt 0 (- 1)) = - 3839
   \<and> to_ticks \<lparr>m_beats = 0, m_ticks = - 1\<rparr> = - 1"
proof -
  have borrow: "fix_negative_ticks 0 (- 1) = (- 1, 1919)"
    by (simp add: fix_negative_ticks.simps [of 0 "- 1"]
        fix_negative_ticks.simps [of "- 1" 1919] PPQN_def word_sless_alt)
  have red: "reduce_ticks 1 1919 = (1, 1919)"
    by (simp add: reduce_ticks.simps [of 1 1919] PPQN_def word_sle_eq)
  have val: "Beats_bt 0 (- 1) = \<lparr>m_beats = - 1, m_ticks = - 1919\<rparr>"
    by (simp add: Beats_bt_def normalize_def borrow red abs_int32_def word_sless_alt word_sle_eq)
  show ?thesis
    by (simp add: val to_ticks_def PPQN_def)
qed

text \<open>
  C6 as stated: the ticks field is \<open>round (frac * PPQN)\<close>. At \<open>time = 1/2048\<close> the
  product is 15/16 (a double, so nothing is lost in computing it): rounding gives 1, the
  constructor stores 0.
\<close>

theorem Beats_double_round_counterexample:
  "Beats_double (\<lambda>r. r) (1 / 2048) = Some \<lparr>m_beats = 0, m_ticks = 0\<rparr>
   \<and> round (fst (modf (1 / 2048)) * 1920) = (1 :: int)"
  by (simp add: Beats_double_def modf_def c_trunc_def double_to_int32_def PPQN_def round_def)

text \<open>
  C6, amended: the beats field is the integer part of \<open>x\<close>, and the ticks field is
  \<open>frac * PPQN\<close> (as computed in double precision) with its fractional part discarded,
  that is truncated toward zero and not rounded to nearest.
\<close>

theorem Beats_double_truncates:
  assumes "Beats_double rnd x = Some B"
  shows "sint (m_beats B) = c_trunc x
         \<and> sint (m_ticks B) = c_trunc (rnd ((x - of_int (c_trunc x)) * 1920))"
proof -
  from assms obtain b t where
    b: "double_to_int32 (of_int (c_trunc x)) = Some b" and
    t: "double_to_int32 (rnd ((x - of_int (c_trunc x)) * 1920)) = Some t" and
    B: "B = \<lparr>m_beats = b, m_ticks = t\<rparr>"
    by (auto simp: Beats_double_def modf_def PPQN_def split: option.splits)
  have "c_trunc (of_int (c_trunc x)) = c_trunc x"
    by (simp add: c_trunc_def)
  with double_to_int32_Some [OF b] double_to_int32_Some [OF t] B show ?thesis
    by simp
qed

theorem Beats_double_truncates_witness:
  "Beats_double (\<lambda>r. r) (1 / 2048) = Some \<lparr>m_beats = 0, m_ticks = 0\<rparr>
   \<and> sint (m_beats \<lparr>m_beats = 0, m_ticks = 0\<rparr>) = c_trunc (1 / 2048)
   \<and> sint (m_ticks \<lparr>m_beats = 0, m_ticks = 0\<rparr>)
       = c_trunc ((\<lambda>r. r) ((1 / 2048 - of_int (c_trunc (1 / 2048))) * 1920))"
proof -
  have h: "Beats_double (\<lambda>r. r) (1 / 2048) = Some \<lparr>m_beats = 0, m_ticks = 0\<rparr>"
    by (simp add: Beats_double_def modf_def c_trunc_def double_to_int32_def PPQN_def)
  show ?thesis
    using h Beats_double_truncates [OF h] by (simp add: c_trunc_def)
qed

section \<open>Properties of the TransportFSM\<close>

lemma butler_wait_defers:
  "current_state m = ButlerWait \<Longrightarrow> start_or_stop e \<Longrightarrow>
   process_event g m e = m\<lparr>deferred_events := deferred_events m @ [e]\<rparr>"
  by (cases e) (simp_all add: process_event_def start_or_stop_def)

lemma butler_wait_defers_all:
  "current_state m = ButlerWait \<Longrightarrow> \<forall>e \<in> set es. start_or_stop e \<Longrightarrow>
   foldl (process_event g) m es = m\<lparr>deferred_events := deferred_events m @ es\<rparr>"
proof (induction es arbitrary: m)
  case Nil
  then show ?case by simp
next
  case (Cons e es)
  then show ?case
    by (simp add: butler_wait_defers)
qed

lemma start_or_stop_dispatch:
  assumes "start_or_stop e" "current_state m \<noteq> ButlerWait"
  shows "current_state (dispatch g m e) \<noteq> ButlerWait
         \<and> deferred_events (dispatch g m e) = deferred_events m"
proof (cases e)
  case ev_start
  with assms show ?thesis
    by (cases "current_state m")
       (simp_all add: dispatch_def call_def mark_for_stop_def mark_for_locate_def)
next
  case (ev_stop s)
  with assms show ?thesis
    by (cases "current_state m")
       (simp_all add: dispatch_def call_def mark_for_stop_def mark_for_locate_def)
qed (use assms in \<open>simp_all add: start_or_stop_def\<close>)

lemma row_action_keeps_queue:
  "transition_table g m s e = Row nxt act \<Longrightarrow> deferred_events (act x) = deferred_events x"
  by (cases s; cases e)
     (auto simp: call_def mark_for_stop_def mark_for_locate_def split: if_splits)

lemma process_event_no_queue:
  assumes "deferred_events m = []"
  shows "process_event g m e = dispatch g m e"
proof (cases "transition_table g m (current_state m) e")
  case (Row nxt act)
  with assms row_action_keeps_queue [OF Row, of m] show ?thesis
    by (simp add: process_event_def dispatch_def)
qed (simp_all add: process_event_def dispatch_def)

lemma reinject_is_replay:
  "current_state m \<noteq> ButlerWait \<Longrightarrow> deferred_events m = [] \<Longrightarrow>
   \<forall>e \<in> set es. start_or_stop e \<Longrightarrow>
   reinject g m es = foldl (process_event g) m es"
proof (induction es arbitrary: m)
  case Nil
  then show ?case by simp
next
  case (Cons e es)
  from Cons.prems have e: "start_or_stop e" and es: "\<forall>e \<in> set es. start_or_stop e"
    by simp_all
  have same: "process_event g m e = dispatch g m e"
    using Cons.prems(2) by (rule process_event_no_queue)
  from start_or_stop_dispatch [OF e Cons.prems(1), of g] Cons.prems(2)
  have "current_state (dispatch g m e) \<noteq> ButlerWait" "deferred_events (dispatch g m e) = []"
    by simp_all
  from Cons.IH [OF this es] same show ?case
    by simp
qed

lemma replay_keeps_out:
  "current_state m \<noteq> ButlerWait \<Longrightarrow> deferred_events m = [] \<Longrightarrow>
   \<forall>e \<in> set es. start_or_stop e \<Longrightarrow>
   current_state (foldl (process_event g) m es) \<noteq> ButlerWait
   \<and> deferred_events (foldl (process_event g) m es) = []"
proof (induction es arbitrary: m)
  case Nil
  then show ?case by simp
next
  case (Cons e es)
  from Cons.prems have e: "start_or_stop e" and es: "\<forall>e \<in> set es. start_or_stop e"
    by simp_all
  have same: "process_event g m e = dispatch g m e"
    using Cons.prems(2) by (rule process_event_no_queue)
  from start_or_stop_dispatch [OF e Cons.prems(1), of g] Cons.prems(2)
  have "current_state (dispatch g m e) \<noteq> ButlerWait" "deferred_events (dispatch g m e) = []"
    by simp_all
  from Cons.IH [OF this es] same show ?case
    by simp
qed

lemma butler_done_exit:
  assumes "current_state m = ButlerWait" "deferred_events m = []"
  shows "process_event g m ev_butler_done
     = m\<lparr>current_state := (if stopped_to_locate m then Locating else Stopped),
         actions := actions m @ [if stopped_to_locate m then locate_phase_two
                                 else butler_completed_transport_work]\<rparr>"
  using assms by (simp add: process_event_def call_def)

text \<open>
  C2, as stated, fails for a deferred \<open>stop\<close> in a \<open>ButlerWait\<close> that was not entered for a
  locate: \<open>butler_done\<close> leaves to \<open>Stopped\<close>, whose row for \<open>stop\<close> has no action, so the
  machine ends exactly where it ends when no \<open>stop\<close> was delivered at all.
\<close>

theorem deferred_stop_counterexample:
  "process_event (\<lambda>m. False) (process_event (\<lambda>m. False) butler_wait_0 (ev_stop stop_0))
     ev_butler_done
     = butler_wait_0\<lparr>current_state := Stopped, actions := [butler_completed_transport_work]\<rparr>
   \<and> process_event (\<lambda>m. False) butler_wait_0 ev_butler_done
     = butler_wait_0\<lparr>current_state := Stopped, actions := [butler_completed_transport_work]\<rparr>"
  by (simp add: butler_wait_0_def process_event_def dispatch_def call_def)

text \<open>
  C2, amended. In \<open>ButlerWait\<close> every \<open>start\<close> and \<open>stop\<close> is queued and nothing else
  changes. \<open>butler_done\<close> leaves \<open>ButlerWait\<close>, to \<open>Locating\<close> with \<open>locate_phase_two\<close> when
  \<open>_stopped_to_locate\<close> is set and to \<open>Stopped\<close> with \<open>butler_completed_transport_work\<close>
  otherwise; the queue is then empty and the machine is where it would be had the queued
  events arrived, in the same order, right after \<open>butler_done\<close>. A deferred \<open>start\<close> leaves
  the machine \<open>Rolling\<close>, and calls \<open>start_playback\<close> when no locate was under way; a
  deferred \<open>stop\<close> leaves it \<open>Stopped\<close>, and calls \<open>stop_playback\<close> only when a locate was
  under way.
\<close>

theorem butler_wait_deferral:
  assumes "current_state m = ButlerWait" "deferred_events m = []"
    "\<forall>e \<in> set es. start_or_stop e"
  shows "foldl (process_event g) m es = m\<lparr>deferred_events := es\<rparr>
     \<and> process_event g m ev_butler_done
         = m\<lparr>current_state := (if stopped_to_locate m then Locating else Stopped),
             actions := actions m @ [if stopped_to_locate m then locate_phase_two
                                     else butler_completed_transport_work]\<rparr>
     \<and> process_event g (foldl (process_event g) m es) ev_butler_done
         = foldl (process_event g) (process_event g m ev_butler_done) es
     \<and> current_state (process_event g (foldl (process_event g) m es) ev_butler_done)
         \<noteq> ButlerWait
     \<and> deferred_events (process_event g (foldl (process_event g) m es) ev_butler_done) = []
     \<and> process_event g (process_event g m ev_start) ev_butler_done
         = m\<lparr>current_state := Rolling,
             actions := actions m @ (if stopped_to_locate m then [locate_phase_two]
                                     else [butler_completed_transport_work, start_playback])\<rparr>
     \<and> process_event g (process_event g m (ev_stop s)) ev_butler_done
         = m\<lparr>current_state := Stopped,
             actions := actions m @ (if stopped_to_locate m
                                     then [locate_phase_two, stop_playback s]
                                     else [butler_completed_transport_work])\<rparr>"
proof -
  let ?x = "process_event g m ev_butler_done"
  note exit = butler_done_exit [OF assms(1,2), of g]
  have queued: "foldl (process_event g) m es = m\<lparr>deferred_events := es\<rparr>"
    using butler_wait_defers_all [OF assms(1,3), of g] assms(2) by simp
  have out: "current_state ?x \<noteq> ButlerWait" and empty: "deferred_events ?x = []"
    using assms(2) by (simp_all add: exit)
  have drained: "process_event g (m\<lparr>deferred_events := es\<rparr>) ev_butler_done = reinject g ?x es"
    using assms(1,2) by (cases m) (simp add: process_event_def call_def)
  have replay: "reinject g ?x es = foldl (process_event g) ?x es"
    using out empty assms(3) by (rule reinject_is_replay)
  have fifo: "process_event g (foldl (process_event g) m es) ev_butler_done
      = foldl (process_event g) ?x es"
    using queued drained replay by simp
  note after = replay_keeps_out [OF out empty assms(3), of g]
  have start1: "process_event g m ev_start = m\<lparr>deferred_events := [ev_start]\<rparr>"
    using butler_wait_defers [OF assms(1), of ev_start g] assms(2)
    by (simp add: start_or_stop_def)
  have stop1: "process_event g m (ev_stop s) = m\<lparr>deferred_events := [ev_stop s]\<rparr>"
    using butler_wait_defers [OF assms(1), of "ev_stop s" g] assms(2)
    by (simp add: start_or_stop_def)
  have start2: "process_event g (m\<lparr>deferred_events := [ev_start]\<rparr>) ev_butler_done
      = m\<lparr>current_state := Rolling,
          actions := actions m @ (if stopped_to_locate m then [locate_phase_two]
                                  else [butler_completed_transport_work, start_playback])\<rparr>"
    using assms(1,2) by (simp add: process_event_def dispatch_def call_def)
  have stop2: "process_event g (m\<lparr>deferred_events := [ev_stop s]\<rparr>) ev_butler_done
      = m\<lparr>current_state := Stopped,
          actions := actions m @ (if stopped_to_locate m then [locate_phase_two, stop_playback s]
                                  else [butler_completed_transport_work])\<rparr>"
    using assms(1,2) by (simp add: process_event_def dispatch_def call_def)
  show ?thesis
    unfolding start1 stop1 start2 stop2 fifo
    using queued exit after by simp
qed

theorem butler_wait_deferral_witness:
  "current_state butler_wait_1 = ButlerWait \<and> deferred_events butler_wait_1 = []
   \<and> start_or_stop ev_start \<and> start_or_stop (ev_stop stop_0)
   \<and> foldl (process_event (\<lambda>m. False)) butler_wait_1 [ev_start, ev_stop stop_0]
       = butler_wait_1\<lparr>deferred_events := [ev_start, ev_stop stop_0]\<rparr>
   \<and> process_event (\<lambda>m. False) butler_wait_1 ev_butler_done
       = butler_wait_1\<lparr>current_state := Locating,
           actions := [stop_playback stop_0, locate_phase_two]\<rparr>
   \<and> process_event (\<lambda>m. False)
         (foldl (process_event (\<lambda>m. False)) butler_wait_1 [ev_start, ev_stop stop_0])
         ev_butler_done
       = butler_wait_1\<lparr>current_state := DeclickOut, stopped_to_locate := False,
           actions := [stop_playback stop_0, locate_phase_two, stop_playback stop_0]\<rparr>"
proof -
  have h1: "current_state butler_wait_1 = ButlerWait"
    and h2: "deferred_events butler_wait_1 = []"
    and h3: "\<forall>e \<in> set [ev_start, ev_stop stop_0]. start_or_stop e"
    and h3a: "start_or_stop ev_start" and h3b: "start_or_stop (ev_stop stop_0)"
    by (simp_all add: butler_wait_1_def start_or_stop_def)
  note c = butler_wait_deferral [OF h1 h2 h3, of "\<lambda>m. False" stop_0]
  have queued: "foldl (process_event (\<lambda>m. False)) butler_wait_1 [ev_start, ev_stop stop_0]
       = butler_wait_1\<lparr>deferred_events := [ev_start, ev_stop stop_0]\<rparr>"
    using c by (rule conjunct1)
  have exit: "process_event (\<lambda>m. False) butler_wait_1 ev_butler_done
       = butler_wait_1\<lparr>current_state := Locating,
           actions := [stop_playback stop_0, locate_phase_two]\<rparr>"
    using c [THEN conjunct2, THEN conjunct1] by (simp add: butler_wait_1_def stop_0_def)
  have replayed: "foldl (process_event (\<lambda>m. False))
        (butler_wait_1\<lparr>current_state := Locating,
           actions := [stop_playback stop_0, locate_phase_two]\<rparr>) [ev_start, ev_stop stop_0]
       = butler_wait_1\<lparr>current_state := DeclickOut, stopped_to_locate := False,
           actions := [stop_playback stop_0, locate_phase_two, stop_playback stop_0]\<rparr>"
    by (simp add: butler_wait_1_def process_event_def call_def mark_for_stop_def)
  have fifo: "process_event (\<lambda>m. False)
         (foldl (process_event (\<lambda>m. False)) butler_wait_1 [ev_start, ev_stop stop_0])
         ev_butler_done
       = butler_wait_1\<lparr>current_state := DeclickOut, stopped_to_locate := False,
           actions := [stop_playback stop_0, locate_phase_two, stop_playback stop_0]\<rparr>"
    using c [THEN conjunct2, THEN conjunct2, THEN conjunct1] replayed
    unfolding exit by (rule trans)
  from h1 h2 h3a h3b queued exit fifo show ?thesis
    by (intro conjI)
qed

text \<open>
  C5. \<open>Rolling\<close> on \<open>locate\<close>: \<open>mark_for_locate\<close> sets \<open>_stopped_to_locate\<close>, latches
  the request and calls \<open>stop_playback (stop())\<close>, and the machine is in \<open>DeclickOut\<close>;
  \<open>declick_done\<close> then takes it to \<open>Locating\<close> with \<open>exit_declick\<close>.
\<close>

theorem rolling_locate_declick:
  assumes "current_state m = Rolling" "deferred_events m = []"
  shows "process_event g m (ev_locate l)
           = m\<lparr>current_state := DeclickOut, stopped_to_locate := True, last_locate := l,
               actions := actions m @ [stop_playback \<lparr>abort = False, clear_state = False\<rparr>]\<rparr>
         \<and> process_event g (process_event g m (ev_locate l)) ev_declick_done
           = m\<lparr>current_state := Locating, stopped_to_locate := True, last_locate := l,
               actions := actions m @ [stop_playback \<lparr>abort = False, clear_state = False\<rparr>,
                 exit_declick]\<rparr>"
proof -
  have first: "process_event g m (ev_locate l)
      = m\<lparr>current_state := DeclickOut, stopped_to_locate := True, last_locate := l,
          actions := actions m @ [stop_playback \<lparr>abort = False, clear_state = False\<rparr>]\<rparr>"
    using assms by (simp add: process_event_def mark_for_locate_def call_def)
  show ?thesis
    unfolding first using assms by (simp add: process_event_def call_def)
qed

theorem rolling_locate_declick_witness:
  "current_state rolling_0 = Rolling \<and> deferred_events rolling_0 = []
   \<and> process_event (\<lambda>m. False) rolling_0 (ev_locate locate_44100)
       = rolling_0\<lparr>current_state := DeclickOut, stopped_to_locate := True,
           last_locate := locate_44100,
           actions := [start_playback, stop_playback \<lparr>abort = False, clear_state = False\<rparr>]\<rparr>
   \<and> current_state (process_event (\<lambda>m. False)
         (process_event (\<lambda>m. False) rolling_0 (ev_locate locate_44100)) ev_declick_done)
       = Locating"
proof -
  have h1: "current_state rolling_0 = Rolling" and h2: "deferred_events rolling_0 = []"
    by (simp_all add: rolling_0_def)
  note c = rolling_locate_declick [OF h1 h2, of "\<lambda>m. False" locate_44100]
  have first: "process_event (\<lambda>m. False) rolling_0 (ev_locate locate_44100)
       = rolling_0\<lparr>current_state := DeclickOut, stopped_to_locate := True,
           last_locate := locate_44100,
           actions := [start_playback, stop_playback \<lparr>abort = False, clear_state = False\<rparr>]\<rparr>"
    using c [THEN conjunct1] by (simp add: rolling_0_def)
  have second: "current_state (process_event (\<lambda>m. False)
         (process_event (\<lambda>m. False) rolling_0 (ev_locate locate_44100)) ev_declick_done)
       = Locating"
    by (simp add: c [THEN conjunct2])
  from h1 h2 first second show ?thesis
    by (intro conjI)
qed


section \<open>Properties of the DiskReader\<close>














text \<open>
  C9. A reader that is not active and has no activation pending returns from \<open>run\<close>
  with the reader and the buffers as they were.
\<close>

theorem run_inactive:
  assumes "\<not> active s" "\<not> pending_active s"
  shows "run env bufs start_sample end_sample speed nframes result_required s = Inr (s, bufs)"
  using assms by (simp add: run_def)

theorem run_inactive_witness:
  "\<not> active (reader_0 [ring_0 0 4]) \<and> \<not> pending_active (reader_0 [ring_0 0 4])
   \<and> run env_0 bufs_0 0 2 1 2 True (reader_0 [ring_0 0 4]) = Inr (reader_0 [ring_0 0 4], bufs_0)"
proof -
  have h1: "\<not> active (reader_0 [ring_0 0 4])" and h2: "\<not> pending_active (reader_0 [ring_0 0 4])"
    by (simp_all add: reader_0_def)
  from h1 h2 run_inactive [OF h1 h2, of env_0 bufs_0 0 2 1 2 True] show ?thesis
    by (intro conjI)
qed

text \<open>
  C10. While the session is loading, \<open>refill_audio\<close> returns 0 and changes nothing:
  no ring is written and \<open>file_sample[AUDIO]\<close> stays.
\<close>

theorem refill_audio_loading:
  assumes "loading env"
  shows "refill_audio env fill_level s = Inr (0, s)"
  using assms by (simp add: refill_audio_def)

theorem refill_audio_loading_witness:
  "loading (env_0\<lparr>loading := True\<rparr>)
   \<and> refill_audio (env_0\<lparr>loading := True\<rparr>) 2 (reader_0 [ring_0 0 4])
       = Inr (0, reader_0 [ring_0 0 4])"
proof -
  have h: "loading (env_0\<lparr>loading := True\<rparr>)"
    by simp
  from h refill_audio_loading [OF h, of 2 "reader_0 [ring_0 0 4]"] show ?thesis
    by (intro conjI)
qed


lemma refill_keeps_refl: "refill_keeps env s s"
  by (simp add: refill_keeps_def)

lemma refill_keeps_trans:
  "refill_keeps env s s1 \<Longrightarrow> refill_keeps env s1 s2 \<Longrightarrow> refill_keeps env s s2"
  by (auto simp: refill_keeps_def split: if_split_asm)

lemma rb_write_frame:
  "read_idx (fst (rb_write rb src)) = read_idx rb \<and> bufsize (fst (rb_write rb src)) = bufsize rb"
  by (simp add: rb_write_def Let_def)

lemma write_zero_frame:
  "read_idx (write_zero rb cnt) = read_idx rb \<and> bufsize (write_zero rb cnt) = bufsize rb"
  by (simp add: write_zero_def rb_write_frame)

lemma audio_read_loop_frame:
  "audio_read_loop env loc reversed channel rb start cnt = (r, rb', start') \<Longrightarrow>
   read_idx rb' = read_idx rb \<and> bufsize rb' = bufsize rb
   \<and> (reversed \<longrightarrow> start' = start)
   \<and> (\<not> reversed \<and> loc = None \<longrightarrow> start \<le> start')
   \<and> (loc = None \<and> r = 0 \<longrightarrow> 0 \<le> cnt)"
proof (induction env loc reversed channel rb start cnt arbitrary: r rb' start'
    rule: audio_read_loop.induct)
  case (1 env loc reversed channel rb start cnt)
  let ?n = "min cnt (this_read_of loc start cnt)"
  let ?data = "audio_playlist_read env start ?n channel"
  show ?case
  proof (cases "cnt = 0 \<or> this_read_of loc start cnt = 0")
    case True
    with "1.prems" show ?thesis
      by (auto simp: audio_read_loop.simps [of env loc reversed channel rb start cnt]
            this_read_of_def split: option.splits)
  next
    case stop: False
    show ?thesis
    proof (cases "int (length ?data) \<noteq> ?n")
      case True
      with stop "1.prems" show ?thesis
        by (auto simp: audio_read_loop.simps [of env loc reversed channel rb start cnt])
    next
      case False
      then have len: "int (length ?data) = ?n"
        by simp
      then have nonneg: "0 \<le> ?n"
        by (metis of_nat_0_le_iff)
      let ?rb = "fst (rb_write rb (if reversed then rev ?data else ?data))"
      let ?start = "if reversed then start else next_start loc start cnt ?n"
      have rec: "audio_read_loop env loc reversed channel ?rb ?start (cnt - ?n) = (r, rb', start')"
        using stop len "1.prems"
        by (simp add: audio_read_loop.simps [of env loc reversed channel rb start cnt])
      note IH = "1.IH" [OF stop False rec]
      have step: "\<not> reversed \<and> loc = None \<longrightarrow> start \<le> ?start"
        using nonneg by (auto simp: next_start_def)
      have cnt: "loc = None \<longrightarrow> 0 \<le> cnt"
        using nonneg by (auto simp: this_read_of_def)
      from IH step cnt show ?thesis
        by (auto simp: rb_write_frame)
    qed
  qed
qed

lemma audio_read_frame:
  assumes "audio_read env s rb start cnt channel reversed = Inr (r, rb', start')"
  shows "read_idx rb' = read_idx rb \<and> bufsize rb' = bufsize rb
     \<and> (reversed \<and> r = 0 \<longrightarrow> start' \<le> start)
     \<and> (\<not> reversed \<and> loop_location s = None \<longrightarrow> start \<le> start')"
proof (cases "playlist_audio s")
  case False
  with assms show ?thesis
    by (auto simp: audio_read_def write_zero_frame)
next
  case True
  show ?thesis
  proof (cases reversed)
    case rev: True
    with True assms
    have "audio_read_loop env None True channel rb (start - cnt) cnt = (r, rb', start')"
      by (simp add: audio_read_def)
    from audio_read_loop_frame [OF this] rev show ?thesis
      by auto
  next
    case fwd: False
    show ?thesis
    proof (cases "loop_location s")
      case None
      with True fwd assms
      have "audio_read_loop env None False channel rb start cnt = (r, rb', start')"
        by (simp add: audio_read_def)
      from audio_read_loop_frame [OF this] fwd None show ?thesis
        by auto
    next
      case (Some range)
      obtain loop_start loop_end where range: "range = (loop_start, loop_end)"
        by (cases range)
      from True fwd Some range assms
      obtain st where "audio_read_loop env (Some (loop_start, loop_end)) False channel rb st cnt
          = (r, rb', start')"
        by (auto simp: audio_read_def split: if_split_asm)
      from audio_read_loop_frame [OF this] fwd Some show ?thesis
        by auto
    qed
  qed
qed


lemma refill_channels_frame:
  "refill_channels env s ffa ts str reversed n chans tmp = Inr (r, chans', tmp') \<Longrightarrow>
   map read_idx chans' = map read_idx chans \<and> map bufsize chans' = map bufsize chans
   \<and> (reversed \<and> r = 0 \<and> tmp \<le> ffa \<longrightarrow> tmp' \<le> ffa)
   \<and> (\<not> reversed \<and> loop_location s = None \<and> ffa \<le> tmp \<longrightarrow> ffa \<le> tmp')"
proof (induction chans arbitrary: n tmp r chans' tmp')
  case Nil
  then show ?case by simp
next
  case (Cons chan rest)
  let ?to_read = "min (min ts (int (write_space chan))) str"
  let ?one = "if ?to_read \<noteq> 0 then audio_read env s chan ffa ?to_read n reversed
              else Inr (0, chan, ffa)"
  from Cons.prems obtain r1 chan1 tmp1 where one: "?one = Inr (r1, chan1, tmp1)"
    by (cases ?one) (auto simp: Let_def split: if_split_asm)
  have first: "read_idx chan1 = read_idx chan \<and> bufsize chan1 = bufsize chan
     \<and> (reversed \<and> r1 = 0 \<longrightarrow> tmp1 \<le> ffa)
     \<and> (\<not> reversed \<and> loop_location s = None \<longrightarrow> ffa \<le> tmp1)"
  proof (cases "?to_read \<noteq> 0")
    case True
    with one have "audio_read env s chan ffa ?to_read n reversed = Inr (r1, chan1, tmp1)"
      by simp
    from audio_read_frame [OF this] show ?thesis
      by simp
  next
    case False
    with one show ?thesis
      by simp
  qed
  show ?case
  proof (cases "r1 = 0")
    case False
    with Cons.prems one first show ?thesis
      by (auto simp: Let_def split: if_split_asm)
  next
    case True
    with Cons.prems one obtain rest' where
      rest: "refill_channels env s ffa ts str reversed (Suc n) rest tmp1 = Inr (r, rest', tmp')"
      and chans': "chans' = chan1 # rest'"
      by (auto simp: Let_def split: if_split_asm sum.split_asm)
    from Cons.IH [OF rest] first True chans' show ?thesis
      by auto
  qed
qed

lemma refill_audio_read_keeps:
  assumes "refill_audio_read env s total_space = Inr (ret, s')"
  shows "refill_keeps env s s'"
proof -
  let ?str = "uint (byte_size_for_read (total_bytes total_space (bits_per_sample env))
                div (bits_per_sample env div 8))"
  let ?ffa = "file_sample_audio s"
  from assms obtain r chans tmp where
    chans: "refill_channels env s ?ffa total_space ?str (transport_speed env < 0) 0 (channels s) ?ffa
      = Inr (r, chans, tmp)"
    by (cases "refill_channels env s ?ffa total_space ?str (transport_speed env < 0) 0
                 (channels s) ?ffa")
       (auto simp: refill_audio_read_def Let_def split: if_split_asm)
  note frame = refill_channels_frame [OF chans]
  show ?thesis
  proof (cases "r = 0")
    case False
    with assms chans have "s' = s\<lparr>channels := chans\<rparr>"
      by (simp add: refill_audio_read_def Let_def split: if_split_asm)
    with frame show ?thesis
      by (simp add: refill_keeps_def)
  next
    case True
    with assms chans have "s' = s\<lparr>channels := chans, file_sample_audio := tmp\<rparr>"
      by (simp add: refill_audio_read_def Let_def split: if_split_asm)
    with frame True show ?thesis
      by (simp add: refill_keeps_def)
  qed
qed

lemma fill_with_silence_keeps: "refill_keeps env s (fill_with_silence s)"
  by (simp add: refill_keeps_def fill_with_silence_def write_zero_frame)

lemma refill_audio_space_keeps:
  "refill_audio_space env s front space = Inr (ret, s') \<Longrightarrow> refill_keeps env s s'"
  unfolding refill_audio_space_def Let_def
  by (simp split: if_split_asm)
     (auto intro: refill_keeps_refl fill_with_silence_keeps dest: refill_audio_read_keeps)

lemma refill_audio_keeps:
  "refill_audio env fill_level s = Inr (ret, s') \<Longrightarrow> refill_keeps env s s'"
  unfolding refill_audio_def
  by (simp split: if_split_asm list.split_asm)
     (auto intro: refill_keeps_refl dest: refill_audio_space_keeps)


lemma midi_read_loop_frame:
  "midi_read_loop env loc reversed p m written start effective_start dur
     = (r, p', m', written', start') \<Longrightarrow>
   \<not> reversed \<Longrightarrow> start \<le> start'"
proof (induction env loc reversed p m written start effective_start dur
    arbitrary: r p' m' written' start' rule: midi_read_loop.induct)
  case (1 env loc reversed p m written start effective_start dur)
  let ?es = "midi_effective_start env loc effective_start"
  let ?n = "min dur (midi_this_read loc ?es dur)"
  let ?rd = "midi_playlist_read env p m ?es ?n (midi_loop_range loc)"
  show ?case
  proof (cases "dur = 0 \<or> midi_this_read loc ?es dur = 0")
    case True
    with "1.prems"(1) show ?thesis
      by (subst (asm) midi_read_loop.simps) auto
  next
    case stop: False
    show ?thesis
    proof (cases "int (snd (snd ?rd)) \<noteq> ?n")
      case True
      with stop "1.prems"(1) show ?thesis
        by (subst (asm) midi_read_loop.simps) auto
    next
      case False
      then have len: "int (snd (snd ?rd)) = ?n"
        by simp
      then have nonneg: "0 \<le> ?n"
        by (metis of_nat_0_le_iff)
      have rec: "midi_read_loop env loc reversed (fst ?rd) (fst (snd ?rd))
            (written + word_of_int ?n) (start + ?n) (?es + ?n) (dur - ?n)
          = (r, p', m', written', start')"
        using stop len "1.prems"(2) "1.prems"(1)
        by (subst (asm) midi_read_loop.simps) auto
      have "(if reversed then start else start + ?n) = start + ?n"
        "(if reversed then ?es else ?es + ?n) = ?es + ?n"
        using "1.prems"(2) by simp_all
      with "1.IH" [OF stop False, of r p' m' written' start'] rec "1.prems"(2)
      have "start + ?n \<le> start'"
        by simp
      with nonneg show ?thesis
        by linarith
    qed
  qed
qed

lemma refill_midi_keeps:
  assumes "refill_midi env s = (ret, s')"
  shows "refill_keeps env s s'"
proof (cases "transport_speed env < 0")
  case True
  with assms have "s' = s"
    by (auto simp: refill_midi_def Let_def split: option.split_asm if_split_asm)
  then show ?thesis
    by (simp add: refill_keeps_refl)
next
  case False
  show ?thesis
  proof (cases "s' = s")
    case True
    then show ?thesis
      by (simp add: refill_keeps_refl)
  next
    case changed: False
    with assms False obtain p m dur r p' m' written' ffm' where
      loop: "midi_read_loop env (loop_location s) False p m (samples_written_to_ringbuffer s)
               (file_sample_midi s) (file_sample_midi s) dur = (r, p', m', written', ffm')"
      and s': "s' = s\<lparr>midi_buf := Some m', playlist_midi := Some p',
                 file_sample_midi := ffm', samples_written_to_ringbuffer := written'\<rparr>"
      by (auto simp: refill_midi_def Let_def
            split: option.split_asm if_split_asm prod.split_asm)
    from midi_read_loop_frame [OF loop] s' False show ?thesis
      by (simp add: refill_keeps_def)
  qed
qed

lemma do_refill_with_alloc_keeps:
  assumes "do_refill_with_alloc env partial_fill s = Inr (ret, s')"
  shows "refill_keeps env s s'"
proof (cases "refill_audio env (if partial_fill then chunk_samples env else 0) s")
  case (Inl f)
  with assms show ?thesis
    by (simp add: do_refill_with_alloc_def)
next
  case (Inr r)
  obtain ret1 s1 where r: "r = (ret1, s1)"
    by (cases r)
  note a = refill_audio_keeps [OF Inr [unfolded r]]
  show ?thesis
  proof (cases "ret1 = 0")
    case True
    with assms Inr r have "refill_midi env s1 = (ret, s')"
      by (simp add: do_refill_with_alloc_def)
    from refill_keeps_trans [OF a refill_midi_keeps [OF this]] show ?thesis .
  next
    case False
    with assms Inr r have "s' = s1"
      by (simp add: do_refill_with_alloc_def)
    with a show ?thesis
      by simp
  qed
qed

lemma refill_completely_keeps_all:
  assumes "refill_completely env s = Some r"
  shows "refill_keeps_result env s r"
proof (rule refill_completely.raw_induct
    [where P = "\<lambda>env s r. refill_keeps_result env s r", OF _ assms])
  fix again :: "('a, 'b, 'c) Collaborators \<Rightarrow> ('a, 'b) DiskReader \<Rightarrow>
      (fatal + (int \<times> ('a, 'b) DiskReader)) option"
    and env s r
  assume IH: "\<And>e x y. again e x = Some y \<Longrightarrow> refill_keeps_result e x y"
    and body: "(if refill_again (do_refill_with_alloc env False s)
                then again env (refilled s (do_refill_with_alloc env False s))
                else Some (do_refill_with_alloc env False s)) = Some r"
  show "refill_keeps_result env s r"
  proof (cases "refill_again (do_refill_with_alloc env False s)")
    case True
    then obtain ret1 s1 where one: "do_refill_with_alloc env False s = Inr (ret1, s1)"
      by (auto simp: refill_again_def split: sum.splits)
    with True body have "again env s1 = Some r"
      by (simp add: refilled_def)
    from IH [OF this] do_refill_with_alloc_keeps [OF one] show ?thesis
      by (auto simp: refill_keeps_result_def split: sum.splits intro: refill_keeps_trans)
  next
    case False
    with body have "do_refill_with_alloc env False s = r"
      by simp
    then show ?thesis
      by (auto simp: refill_keeps_result_def split: sum.splits dest: do_refill_with_alloc_keeps)
  qed
qed

lemma refill_completely_keeps:
  "refill_completely env s = Some (Inr (ret, s')) \<Longrightarrow> refill_keeps env s s'"
  by (drule refill_completely_keeps_all) (simp add: refill_keeps_result_def)

lemma seek_reset_fields:
  "pending_overwrite (seek_reset env sample s) = False"
  "channels (seek_reset env sample s) = map rb_reset (channels s)"
  "playback_sample (seek_reset env sample s) = sample"
  "file_sample_audio (seek_reset env sample s) = sample"
  "file_sample_midi (seek_reset env sample s) = sample"
  "samples_read_from_ringbuffer (seek_reset env sample s) = 0"
  "samples_written_to_ringbuffer (seek_reset env sample s) = 0"
  "midi_buf (seek_reset env sample s)
     = map_option (midi_reset env)
         (if samples_read_from_ringbuffer s = 0
          then map_option (midi_reset_tracker env) (midi_buf s) else midi_buf s)"
  "playlist_midi (seek_reset env sample s)
     = (if samples_read_from_ringbuffer s = 0
        then map_option (reset_note_trackers env) (playlist_midi s) else playlist_midi s)"
  by (simp_all add: seek_reset_def reset_tracker_def Let_def)

lemma rb_reset_empty: "read_space (rb_reset rb) = 0 \<and> write_space (rb_reset rb) = bufsize rb - 1"
  by (simp add: rb_reset_def read_space_def write_space_def)

text \<open>
  C3 as stated: after \<open>seek\<close> the three cursors equal the target. The refill that ends
  \<open>seek\<close> reads from the target on: here it puts 5 samples into the ring, and
  \<open>file_sample[AUDIO]\<close> is 105 after a seek to 100.
\<close>

theorem seek_counterexample:
  "seek env_0 100 False (reader_0 [ring_0 3 5])
     = Some (Inr (0, (reader_0 [ring_0 0 5])\<lparr>pending_overwrite := False, playback_sample := 100,
         file_sample_audio := 105, file_sample_midi := 100\<rparr>))
   \<and> file_sample_audio ((reader_0 [ring_0 0 5])\<lparr>pending_overwrite := False,
         playback_sample := 100, file_sample_audio := 105, file_sample_midi := 100\<rparr>) \<noteq> 100"
  by code_simp

text \<open>
  C3, amended. Unless it is the early return of a build without \<open>NDEBUG\<close>, a \<open>seek\<close>
  that returns has cleared \<open>_pending_overwrite\<close>, set \<open>playback_sample\<close> to the target and
  zeroed the count of samples read from the MIDI ring; every audio ring has its read index
  at 0. The file cursors are where the refill that ends \<open>seek\<close> left them. With a negative
  transport speed \<open>file_sample[AUDIO]\<close> is at or before the target,
  \<open>file_sample[MIDI]\<close> equals the target, and the MIDI ring and the trackers are as the
  reset left them. Otherwise \<open>file_sample[MIDI]\<close> is at or after the target, and so is
  \<open>file_sample[AUDIO]\<close> when no loop is set. The result is that of the refill started in
  the state \<open>seek_reset\<close>, in which every ring and the MIDI ring are reset, the trackers are
  reset if nothing had been read from the MIDI ring, and the three cursors equal the
  target.
\<close>

theorem seek_resets_then_refills:
  assumes "seek env sample complete_refill s = Some (Inr (ret, s'))"
    and "ndebug env \<or> sample \<noteq> playback_sample s \<or> complete_refill"
  shows "pending_overwrite s' = False \<and> playback_sample s' = sample
     \<and> samples_read_from_ringbuffer s' = 0
     \<and> map read_idx (channels s') = map (\<lambda>rb. 0) (channels s)
     \<and> map bufsize (channels s') = map bufsize (channels s)
     \<and> (transport_speed env < 0 \<longrightarrow>
          file_sample_audio s' \<le> sample \<and> file_sample_midi s' = sample
          \<and> midi_buf s'
             = map_option (midi_reset env)
                 (if samples_read_from_ringbuffer s = 0
                  then map_option (midi_reset_tracker env) (midi_buf s) else midi_buf s)
          \<and> playlist_midi s'
             = (if samples_read_from_ringbuffer s = 0
                then map_option (reset_note_trackers env) (playlist_midi s)
                else playlist_midi s))
     \<and> (\<not> transport_speed env < 0 \<longrightarrow> sample \<le> file_sample_midi s')
     \<and> (\<not> transport_speed env < 0 \<and> loop_location s = None \<longrightarrow>
          sample \<le> file_sample_audio s')
     \<and> (if complete_refill then refill_completely env (seek_reset env sample s)
         else Some (do_refill_with_alloc env True (seek_reset env sample s)))
        = Some (Inr (ret, s'))
     \<and> pending_overwrite (seek_reset env sample s) = False
     \<and> channels (seek_reset env sample s) = map rb_reset (channels s)
     \<and> midi_buf (seek_reset env sample s)
        = map_option (midi_reset env)
            (if samples_read_from_ringbuffer s = 0
             then map_option (midi_reset_tracker env) (midi_buf s) else midi_buf s)
     \<and> playlist_midi (seek_reset env sample s)
        = (if samples_read_from_ringbuffer s = 0
           then map_option (reset_note_trackers env) (playlist_midi s) else playlist_midi s)
     \<and> playback_sample (seek_reset env sample s) = sample
     \<and> file_sample_audio (seek_reset env sample s) = sample
     \<and> file_sample_midi (seek_reset env sample s) = sample"
proof -
  let ?s0 = "seek_reset env sample s"
  have refill: "(if complete_refill then refill_completely env ?s0
                 else Some (do_refill_with_alloc env True ?s0)) = Some (Inr (ret, s'))"
    using assms by (auto simp: seek_def split: if_splits)
  have keeps: "refill_keeps env ?s0 s'"
  proof (cases complete_refill)
    case True
    with refill have "refill_completely env ?s0 = Some (Inr (ret, s'))"
      by simp
    then show ?thesis
      by (rule refill_completely_keeps)
  next
    case False
    with refill have "do_refill_with_alloc env True ?s0 = Inr (ret, s')"
      by simp
    then show ?thesis
      by (rule do_refill_with_alloc_keeps)
  qed
  have loop: "loop_location ?s0 = loop_location s"
    by (simp add: seek_reset_def reset_tracker_def Let_def)
  have rings: "map read_idx (map rb_reset (channels s)) = map (\<lambda>rb. 0) (channels s)"
    "map bufsize (map rb_reset (channels s)) = map bufsize (channels s)"
    by (simp_all add: rb_reset_def)
  have post: "pending_overwrite s' = False" "playback_sample s' = sample"
    "samples_read_from_ringbuffer s' = 0"
    "map read_idx (channels s') = map (\<lambda>rb. 0) (channels s)"
    "map bufsize (channels s') = map bufsize (channels s)"
    using keeps rings by (simp_all add: refill_keeps_def seek_reset_fields)
  have reverse: "transport_speed env < 0 \<longrightarrow>
          file_sample_audio s' \<le> sample \<and> file_sample_midi s' = sample
          \<and> midi_buf s' = midi_buf ?s0 \<and> playlist_midi s' = playlist_midi ?s0"
    using keeps by (simp add: refill_keeps_def seek_reset_fields(4,5) split: if_split_asm)
  have forward: "\<not> transport_speed env < 0 \<longrightarrow> sample \<le> file_sample_midi s'"
    "\<not> transport_speed env < 0 \<and> loop_location s = None \<longrightarrow> sample \<le> file_sample_audio s'"
    using keeps loop
    by (simp_all add: refill_keeps_def seek_reset_fields(4,5) split: if_split_asm)
  from post reverse forward refill show ?thesis
    by (simp add: seek_reset_fields)
qed

theorem seek_resets_then_refills_witness:
  "seek env_1 100 False reader_2 = Some (Inr (0, reader_2_forward))
   \<and> ndebug env_1 \<and> \<not> transport_speed env_1 < 0 \<and> loop_location reader_2 = None
   \<and> pending_overwrite reader_2_forward = False \<and> playback_sample reader_2_forward = 100
   \<and> map read_idx (channels reader_2_forward) = [0]
   \<and> 100 \<le> file_sample_audio reader_2_forward \<and> 100 \<le> file_sample_midi reader_2_forward
   \<and> seek (env_1\<lparr>transport_speed := - 1\<rparr>) 100 False reader_2 = Some (Inr (0, reader_2_reverse))
   \<and> transport_speed (env_1\<lparr>transport_speed := - 1\<rparr>) < 0
   \<and> file_sample_audio reader_2_reverse \<le> 100 \<and> file_sample_midi reader_2_reverse = 100
   \<and> midi_buf reader_2_reverse = Some 0 \<and> playlist_midi reader_2_reverse = Some 0"
proof -
  have f1: "seek env_1 100 False reader_2 = Some (Inr (0, reader_2_forward))"
    by code_simp
  have r1: "seek (env_1\<lparr>transport_speed := - 1\<rparr>) 100 False reader_2
      = Some (Inr (0, reader_2_reverse))"
    by code_simp
  have n: "ndebug env_1" and fwd: "\<not> transport_speed env_1 < 0"
    and rev: "transport_speed (env_1\<lparr>transport_speed := - 1\<rparr>) < 0"
    by (simp_all add: env_1_def)
  have n': "ndebug (env_1\<lparr>transport_speed := - 1\<rparr>)"
    using n by simp
  have loop: "loop_location reader_2 = None"
    by (simp add: reader_2_def)
  have f2: "ndebug env_1 \<or> 100 \<noteq> playback_sample reader_2 \<or> False"
    using n by simp
  have r2: "ndebug (env_1\<lparr>transport_speed := - 1\<rparr>) \<or> 100 \<noteq> playback_sample reader_2 \<or> False"
    using n' by simp
  note f = seek_resets_then_refills [OF f1 f2]
  note r = seek_resets_then_refills [OF r1 r2]
  have f3: "pending_overwrite reader_2_forward = False"
    and f4: "playback_sample reader_2_forward = 100"
    using f by simp_all
  have f5: "map read_idx (channels reader_2_forward) = [0]"
    using f by (simp add: reader_2_def)
  have f6: "100 \<le> file_sample_audio reader_2_forward"
    and f7: "100 \<le> file_sample_midi reader_2_forward"
    using f fwd loop by simp_all
  have r3: "file_sample_audio reader_2_reverse \<le> 100"
    and r4: "file_sample_midi reader_2_reverse = 100"
    using r rev by simp_all
  have r5: "midi_buf reader_2_reverse = Some 0" and r6: "playlist_midi reader_2_reverse = Some 0"
    using r rev by (simp_all add: reader_2_def env_1_def)
  from f1 n fwd loop f3 f4 f5 f6 f7 r1 rev r3 r4 r5 r6 show ?thesis
    by (intro conjI)
qed

lemma seek_partial_refill_returns:
  "\<not> complete_refill \<Longrightarrow> seek env sample complete_refill s \<noteq> None"
  by (simp add: seek_def)


lemma length_rb_read: "length (fst (rb_read rb cnt)) = min cnt (read_space rb)"
  by (simp add: rb_read_def samples_at_def Let_def)

lemma deliver_channel_frame:
  "deliver_channel env nframes target_gain ms scaling out disk_buf s bufs = (s', bufs') \<Longrightarrow>
   channels s' = channels s \<and> playback_sample s' = playback_sample s
   \<and> underruns s' = underruns s \<and> need_butler s' = need_butler s
   \<and> length (audio bufs') = length (audio bufs)"
  by (auto simp: deliver_channel_def Let_def)

lemma read_channel_enough:
  assumes "start_sample = playback_sample s" "audio bufs \<noteq> []" "speed \<noteq> 0"
    "nframes \<le> read_space (channels s ! n)"
  shows "\<exists>s' bufs'.
     read_channel env start_sample speed nframes target_gain ms scaling n s bufs
       = Inr (False, s', bufs')
     \<and> channels s' = (channels s)[n := snd (rb_read (channels s ! n) nframes)]
     \<and> playback_sample s' = playback_sample s \<and> underruns s' = underruns s
     \<and> need_butler s' = need_butler s \<and> audio bufs' \<noteq> []"
proof -
  let ?got = "rb_read (channels s ! n) nframes"
  let ?s2 = "s\<lparr>channels := (channels s)[n := snd ?got]\<rparr>"
  let ?out = "n mod length (audio bufs)"
  let ?disk_buf = "if mon_input ms then scratch_audio env n else audio bufs ! ?out"
  let ?d = "deliver_channel env nframes target_gain ms scaling ?out
              (fst ?got @ drop (length (fst ?got)) ?disk_buf) ?s2 bufs"
  have full: "\<not> length (fst ?got) < nframes"
    using assms(4) by (simp add: length_rb_read)
  have step: "read_channel env start_sample speed nframes target_gain ms scaling n s bufs
      = Inr (False, ?d)"
    using assms(1,2,3) full by (simp add: read_channel_def Let_def)
  obtain s' bufs' where d: "?d = (s', bufs')"
    by (cases ?d)
  from deliver_channel_frame [OF d] assms(2) step d show ?thesis
    by auto
qed

lemma read_channel_short:
  assumes "start_sample = playback_sample s" "audio bufs \<noteq> []" "speed \<noteq> 0"
    "read_space (channels s ! n) < nframes"
  shows "\<exists>s' bufs'.
     read_channel env start_sample speed nframes target_gain ms scaling n s bufs
       = Inr (True, s', bufs')
     \<and> channels s' = (channels s)[n := snd (rb_read (channels s ! n) nframes)]
     \<and> playback_sample s' = playback_sample s \<and> underruns s' = Suc (underruns s)
     \<and> need_butler s' = need_butler s"
proof -
  have short: "length (fst (rb_read (channels s ! n) nframes)) < nframes"
    using assms(4) by (simp add: length_rb_read)
  show ?thesis
    using assms(1,2,3) short by (simp add: read_channel_def Let_def)
qed

lemma read_channels_underrun:
  assumes "start_sample = playback_sample s" "audio bufs \<noteq> []" "speed \<noteq> 0"
    "j \<le> k" "k < length (channels s)" "read_space (channels s ! k) < nframes"
    "\<forall>i. j \<le> i \<and> i < k \<longrightarrow> nframes \<le> read_space (channels s ! i)"
  shows "\<exists>s' bufs'.
     read_channels env start_sample speed nframes target_gain ms scaling
       [j..<length (channels s)] s bufs = Inr (True, s', bufs')
     \<and> underruns s' = Suc (underruns s) \<and> playback_sample s' = playback_sample s
     \<and> need_butler s' = need_butler s \<and> length (channels s') = length (channels s)
     \<and> (\<forall>i < length (channels s).
           channels s' ! i = (if j \<le> i \<and> i \<le> k then snd (rb_read (channels s ! i) nframes)
                              else channels s ! i))"
  using assms
proof (induction "k - j" arbitrary: j s bufs)
  case 0
  then have jk: "j = k"
    by simp
  from "0.prems" jk have upt: "[j..<length (channels s)] = k # [Suc k..<length (channels s)]"
    by (simp add: upt_conv_Cons)
  from read_channel_short [OF "0.prems"(1,2,3,6), of env target_gain ms scaling]
  obtain s' bufs' where
    step: "read_channel env start_sample speed nframes target_gain ms scaling k s bufs
      = Inr (True, s', bufs')"
    and ch: "channels s' = (channels s)[k := snd (rb_read (channels s ! k) nframes)]"
    and rest: "playback_sample s' = playback_sample s" "underruns s' = Suc (underruns s)"
      "need_butler s' = need_butler s"
    by blast
  have "\<forall>i < length (channels s).
      channels s' ! i = (if j \<le> i \<and> i \<le> k then snd (rb_read (channels s ! i) nframes)
                         else channels s ! i)"
    using ch jk by (auto simp: nth_list_update)
  with step ch rest upt show ?case
    by simp
next
  case (Suc d)
  then have lt: "j < k"
    by simp
  with Suc.prems have upt: "[j..<length (channels s)] = j # [Suc j..<length (channels s)]"
    by (simp add: upt_conv_Cons)
  from Suc.prems lt have enough: "nframes \<le> read_space (channels s ! j)"
    by simp
  from read_channel_enough [OF Suc.prems(1,2,3) enough, of env target_gain ms scaling]
  obtain s1 bufs1 where
    step: "read_channel env start_sample speed nframes target_gain ms scaling j s bufs
      = Inr (False, s1, bufs1)"
    and ch: "channels s1 = (channels s)[j := snd (rb_read (channels s ! j) nframes)]"
    and rest: "playback_sample s1 = playback_sample s" "underruns s1 = underruns s"
      "need_butler s1 = need_butler s" "audio bufs1 \<noteq> []"
    by blast
  have len: "length (channels s1) = length (channels s)"
    using ch by simp
  have d: "d = k - Suc j"
    using Suc.hyps(2) by simp
  have p1: "start_sample = playback_sample s1"
    using Suc.prems(1) rest by simp
  have p4: "Suc j \<le> k"
    using lt by simp
  have p5: "k < length (channels s1)"
    using Suc.prems(5) len by simp
  have p6: "read_space (channels s1 ! k) < nframes"
    using Suc.prems(6) ch lt by simp
  have p7: "\<forall>i. Suc j \<le> i \<and> i < k \<longrightarrow> nframes \<le> read_space (channels s1 ! i)"
    using Suc.prems(7) ch by simp
  from Suc.hyps(1) [OF d p1 rest(4) Suc.prems(3) p4 p5 p6 p7]
  obtain s' bufs' where
    loop: "read_channels env start_sample speed nframes target_gain ms scaling
       [Suc j..<length (channels s1)] s1 bufs1 = Inr (True, s', bufs')"
    and fin: "underruns s' = Suc (underruns s1)" "playback_sample s' = playback_sample s1"
      "need_butler s' = need_butler s1" "length (channels s') = length (channels s1)"
    and pt: "\<forall>i < length (channels s1).
        channels s' ! i = (if Suc j \<le> i \<and> i \<le> k then snd (rb_read (channels s1 ! i) nframes)
                           else channels s1 ! i)"
    by blast
  have "\<forall>i < length (channels s).
      channels s' ! i = (if j \<le> i \<and> i \<le> k then snd (rb_read (channels s ! i) nframes)
                         else channels s ! i)"
  proof (intro allI impI)
    fix i
    assume i: "i < length (channels s)"
    with pt len have "channels s' ! i
        = (if Suc j \<le> i \<and> i \<le> k then snd (rb_read (channels s1 ! i) nframes)
           else channels s1 ! i)"
      by simp
    with ch i lt show "channels s' ! i
        = (if j \<le> i \<and> i \<le> k then snd (rb_read (channels s ! i) nframes) else channels s ! i)"
      by (cases "i = j") (auto simp: nth_list_update)
  qed
  with step loop fin rest len upt show ?case
    by simp
qed


lemma run_audio_underrun:
  assumes "speed \<noteq> 0" "mon_disk ms" "result_required" "\<not> no_disk_output env"
    "start_sample = playback_sample s" "audio bufs \<noteq> []"
    "k < length (channels s)" "read_space (channels s ! k) < nframes"
    "\<forall>i<k. nframes \<le> read_space (channels s ! i)"
  shows "\<exists>s' bufs'.
     run_audio env start_sample speed nframes result_required 1 ms False s bufs
       = Inr (True, ms, s', bufs')
     \<and> underruns s' = Suc (underruns s) \<and> playback_sample s' = playback_sample s
     \<and> need_butler s' = need_butler s \<and> length (channels s') = length (channels s)
     \<and> (\<forall>i < length (channels s).
           channels s' ! i = (if i \<le> k then snd (rb_read (channels s ! i) nframes)
                              else channels s ! i))"
proof -
  let ?s1 = "s\<lparr>declick_offs := 0\<rparr>"
  let ?scaling = "if length (audio bufs) < length (channels s)
                  then real (length (audio bufs)) / real (length (channels s)) else 1"
  have p1: "start_sample = playback_sample ?s1"
    and p5: "k < length (channels ?s1)"
    and p6: "read_space (channels ?s1 ! k) < nframes"
    and p7: "\<forall>i. 0 \<le> i \<and> i < k \<longrightarrow> nframes \<le> read_space (channels ?s1 ! i)"
    using assms by simp_all
  from read_channels_underrun [OF p1 assms(6) assms(1) _ p5 p6 p7,
      of env 1 ms ?scaling]
  obtain s' bufs' where
    loop: "read_channels env start_sample speed nframes 1 ms ?scaling
       [0..<length (channels ?s1)] ?s1 bufs = Inr (True, s', bufs')"
    and fin: "underruns s' = Suc (underruns ?s1)" "playback_sample s' = playback_sample ?s1"
      "need_butler s' = need_butler ?s1" "length (channels s') = length (channels ?s1)"
    and pt: "\<forall>i < length (channels ?s1).
        channels s' ! i = (if 0 \<le> i \<and> i \<le> k then snd (rb_read (channels ?s1 ! i) nframes)
                           else channels ?s1 ! i)"
    by blast
  have "run_audio env start_sample speed nframes result_required 1 ms False s bufs
      = Inr (True, ms, s', bufs')"
    using assms(1-4) loop
    by (cases "length (audio bufs) < length (channels s)") (simp_all add: run_audio_def Let_def)
  with fin pt show ?thesis
    by simp
qed

text \<open>
  C1, amended. The reader runs this cycle, at speed 1 or -1, monitoring the disk, with a
  result required, nothing pending, disk output on, the graph aligned with
  \<open>playback_sample\<close> and an audio buffer to write to. If channel \<open>k\<close> is the first whose
  ring holds fewer than \<open>nframes\<close> samples, \<open>run\<close> returns there: \<open>Underrun\<close> is emitted
  once, \<open>playback_sample\<close> and \<open>_need_butler\<close> are unchanged, the rings after \<open>k\<close> are
  untouched, and the rings up to \<open>k\<close> have been read.
\<close>

theorem run_underrun:
  assumes "pending_active s" "speed = 1 \<or> speed = - 1" "mon_disk (monitoring_state env)"
    "result_required" "\<not> global_locate_pending env" "\<not> pending_overwrite s"
    "\<not> no_disk_output env" "start_sample = playback_sample s" "audio bufs \<noteq> []"
    "k < length (channels s)" "read_space (channels s ! k) < nframes"
    "\<forall>i<k. nframes \<le> read_space (channels s ! i)"
  shows "\<exists>s' bufs'.
     run env bufs start_sample end_sample speed nframes result_required s = Inr (s', bufs')
     \<and> underruns s' = Suc (underruns s) \<and> playback_sample s' = playback_sample s
     \<and> need_butler s' = need_butler s \<and> length (channels s') = length (channels s)
     \<and> (\<forall>i < length (channels s).
           channels s' ! i = (if i \<le> k then snd (rb_read (channels s ! i) nframes)
                              else channels s ! i))"
proof -
  let ?s1 = "if use_transport_fades env then s\<lparr>active := True\<rparr>
             else s\<lparr>active := True, declick_gain := 1\<rparr>"
  have speed: "speed \<noteq> 0"
    using assms(2) by auto
  have same: "channels ?s1 = channels s" "playback_sample ?s1 = playback_sample s"
    "underruns ?s1 = underruns s" "need_butler ?s1 = need_butler s"
    "pending_overwrite ?s1 = pending_overwrite s"
    by simp_all
  have p5: "start_sample = playback_sample ?s1"
    and p7: "k < length (channels ?s1)"
    and p8: "read_space (channels ?s1 ! k) < nframes"
    and p9: "\<forall>i<k. nframes \<le> read_space (channels ?s1 ! i)"
    using assms(8,10,11,12) by (simp_all only: same)
  from run_audio_underrun [OF speed assms(3,4,7) p5 assms(9) p7 p8 p9]
  obtain s' bufs' where
    a: "run_audio env start_sample speed nframes result_required 1 (monitoring_state env)
          False ?s1 bufs = Inr (True, monitoring_state env, s', bufs')"
    and fin: "underruns s' = Suc (underruns ?s1)" "playback_sample s' = playback_sample ?s1"
      "need_butler s' = need_butler ?s1" "length (channels s') = length (channels ?s1)"
    and pt: "\<forall>i < length (channels ?s1).
        channels s' ! i = (if i \<le> k then snd (rb_read (channels ?s1 ! i) nframes)
                           else channels ?s1 ! i)"
    by blast
  have nonempty: "channels s \<noteq> []"
    using assms(10) by auto
  have "run env bufs start_sample end_sample speed nframes result_required s = Inr (s', bufs')"
  proof (cases "use_transport_fades env")
    case True
    with a have "run_audio env start_sample speed nframes result_required 1
        (monitoring_state env) False (s\<lparr>active := True\<rparr>) bufs
        = Inr (True, monitoring_state env, s', bufs')"
      by simp
    with True assms(1,2,3,5,6) speed nonempty show ?thesis
      by (auto simp: run_def Let_def)
  next
    case False
    with a have "run_audio env start_sample speed nframes result_required 1
        (monitoring_state env) False (s\<lparr>active := True, declick_gain := 1\<rparr>) bufs
        = Inr (True, monitoring_state env, s', bufs')"
      by simp
    with False assms(1,2,3,5,6) speed nonempty show ?thesis
      by (auto simp: run_def Let_def)
  qed
  with fin pt same show ?thesis
    by simp
qed


text \<open>
  C1 as stated: on an underrun the rings are left as they were. Two channels, the first
  with 4 samples and the second with 1, and a cycle of 2 frames: the first ring is read
  before the second turns out short, and the short read takes what there is. The signal
  is emitted once, and the read indices have moved from 0 and 0 to 2 and 1.
\<close>

theorem run_underrun_counterexample:
  "run env_0 bufs_0 0 2 1 2 True reader_1 = Inr (reader_1_after, bufs_0)
   \<and> read_space (channels reader_1 ! 1) < 2
   \<and> underruns reader_1_after = 1
   \<and> map read_idx (channels reader_1) = [0, 0]
   \<and> map read_idx (channels reader_1_after) = [2, 1]"
  by code_simp

theorem run_underrun_witness:
  "pending_active reader_1 \<and> mon_disk (monitoring_state env_0)
   \<and> \<not> global_locate_pending env_0 \<and> \<not> pending_overwrite reader_1 \<and> \<not> no_disk_output env_0
   \<and> 0 = playback_sample reader_1 \<and> audio bufs_0 \<noteq> []
   \<and> 1 < length (channels reader_1) \<and> read_space (channels reader_1 ! 1) < 2
   \<and> 2 \<le> read_space (channels reader_1 ! 0)
   \<and> run env_0 bufs_0 0 2 1 2 True reader_1 = Inr (reader_1_after, bufs_0)
   \<and> underruns reader_1_after = Suc (underruns reader_1)
   \<and> playback_sample reader_1_after = playback_sample reader_1
   \<and> need_butler reader_1_after = need_butler reader_1
   \<and> channels reader_1_after ! 0 = snd (rb_read (channels reader_1 ! 0) 2)
   \<and> channels reader_1_after ! 1 = snd (rb_read (channels reader_1 ! 1) 2)"
proof -
  have h1: "pending_active reader_1" and h3: "mon_disk (monitoring_state env_0)"
    and h5: "\<not> global_locate_pending env_0" and h6: "\<not> pending_overwrite reader_1"
    and h7: "\<not> no_disk_output env_0" and h8: "0 = playback_sample reader_1"
    and h9: "audio bufs_0 \<noteq> []" and h10: "1 < length (channels reader_1)"
    by (simp_all add: reader_1_def reader_0_def env_0_def bufs_0_def)
  have h11: "read_space (channels reader_1 ! 1) < 2"
    and first: "2 \<le> read_space (channels reader_1 ! 0)"
    by (simp_all add: reader_1_def reader_0_def ring_0_def read_space_def)
  have h2: "(1 :: real) = 1 \<or> (1 :: real) = - 1"
    by simp
  have h12: "\<forall>i<1. 2 \<le> read_space (channels reader_1 ! i)"
    using first by simp
  have ev: "run env_0 bufs_0 0 2 1 2 True reader_1 = Inr (reader_1_after, bufs_0)"
    by code_simp
  from run_underrun [OF h1 h2 h3 TrueI h5 h6 h7 h8 h9 h10 h11 h12, of 2]
  obtain s' bufs' where
    r: "run env_0 bufs_0 0 2 1 2 True reader_1 = Inr (s', bufs')"
    and u: "underruns s' = Suc (underruns reader_1)"
    and p: "playback_sample s' = playback_sample reader_1"
    and n: "need_butler s' = need_butler reader_1"
    and c: "\<forall>i < length (channels reader_1).
        channels s' ! i = (if i \<le> 1 then snd (rb_read (channels reader_1 ! i) 2)
                           else channels reader_1 ! i)"
    by blast
  from r ev have s': "s' = reader_1_after"
    by simp
  have "0 < length (channels reader_1)"
    using h10 by arith
  with c have c0: "channels s' ! 0 = snd (rb_read (channels reader_1 ! 0) 2)"
    by fastforce
  from c h10 have c1: "channels s' ! 1 = snd (rb_read (channels reader_1 ! 1) 2)"
    by fastforce
  from h1 h3 h5 h6 h7 h8 h9 h10 h11 first ev u p n c0 c1 show ?thesis
    unfolding s' by (intro conjI)
qed


section \<open>Properties of the DeclickAmp\<close>

lemma rounding_zero: "rounding rnd eps tiny huge \<Longrightarrow> rnd 0 = 0"
  unfolding rounding_def by (metis neg_equal_zero neg_0_equal_iff_equal minus_zero)

lemma blocks_step:
  "0 < remain \<Longrightarrow>
   (remain + 15) div 16 = Suc ((remain - (if 16 < remain then 16 else remain) + 15) div (16 :: nat))"
  by (cases "16 < remain") auto

lemma apply_gain_loop_gain:
  "snd (apply_gain_loop rnd a tgt buffer g offset remain)
     = ((\<lambda>g. rnd (g + rnd (a * rnd (tgt - g)))) ^^ ((remain + 15) div 16)) g"
proof (induction rnd a tgt buffer g offset remain rule: apply_gain_loop.induct)
  case (1 rnd a tgt buffer g offset remain)
  show ?case
  proof (cases "remain = 0")
    case True
    then show ?thesis
      by (subst apply_gain_loop.simps) simp
  next
    case False
    then have pos: "0 < remain"
      by simp
    have "snd (apply_gain_loop rnd a tgt buffer g offset remain)
        = snd (apply_gain_loop rnd a tgt
             (scale_block rnd buffer offset (if 16 < remain then 16 else remain) g)
             (rnd (g + rnd (a * rnd (tgt - g))))
             (offset + (if 16 < remain then 16 else remain))
             (remain - (if 16 < remain then 16 else remain)))"
      using False by (subst apply_gain_loop.simps) simp
    also have "\<dots> = ((\<lambda>g. rnd (g + rnd (a * rnd (tgt - g))))
          ^^ ((remain - (if 16 < remain then 16 else remain) + 15) div 16))
        (rnd (g + rnd (a * rnd (tgt - g))))"
      by (rule "1.IH" [OF False])
    also have "\<dots> = ((\<lambda>g. rnd (g + rnd (a * rnd (tgt - g)))) ^^ ((remain + 15) div 16)) g"
      unfolding blocks_step [OF pos] by (simp only: funpow_Suc_right o_apply)
    finally show ?thesis .
  qed
qed


lemma rounding_mono: "rounding rnd eps tiny huge \<Longrightarrow> x \<le> y \<Longrightarrow> rnd x \<le> rnd y"
  by (simp add: rounding_def)

lemma rounding_neg: "rounding rnd eps tiny huge \<Longrightarrow> rnd (- x) = - rnd x"
  by (simp add: rounding_def)

lemma rounding_idem: "rounding rnd eps tiny huge \<Longrightarrow> rnd (rnd x) = rnd x"
  by (simp add: rounding_def)

lemma rounding_upper:
  "rounding rnd eps tiny huge \<Longrightarrow> tiny \<le> x \<Longrightarrow> x \<le> huge \<Longrightarrow> rnd x \<le> (1 + eps) * x"
proof -
  assume "rounding rnd eps tiny huge" "tiny \<le> x" "x \<le> huge"
  then have "\<bar>rnd x - x\<bar> \<le> eps * x"
    by (simp add: rounding_def)
  then show ?thesis
    by (simp add: algebra_simps abs_le_iff)
qed

lemma rounding_lower:
  "rounding rnd eps tiny huge \<Longrightarrow> tiny \<le> x \<Longrightarrow> x \<le> huge \<Longrightarrow> (1 - eps) * x \<le> rnd x"
proof -
  assume "rounding rnd eps tiny huge" "tiny \<le> x" "x \<le> huge"
  then have "\<bar>rnd x - x\<bar> \<le> eps * x"
    by (simp add: rounding_def)
  then show ?thesis
    by (simp add: algebra_simps abs_le_iff)
qed

lemma block_update_fade:
  assumes R: "rounding rnd eps tiny huge" and a: "0 \<le> a" "a \<le> 1"
    and g: "0 \<le> g" "rnd g = g"
  shows "rnd (g + rnd (a * rnd (0 - g))) = rnd (g - rnd (a * g))"
    and "0 \<le> rnd (a * g)" and "rnd (a * g) \<le> g"
    and "0 \<le> rnd (g + rnd (a * rnd (0 - g)))"
    and "rnd (g + rnd (a * rnd (0 - g))) \<le> g"
proof -
  have "rnd (0 - g) = - g"
    using rounding_neg [OF R, of g] g(2) by simp
  then have "rnd (a * rnd (0 - g)) = - rnd (a * g)"
    using rounding_neg [OF R, of "a * g"] by simp
  then show eq: "rnd (g + rnd (a * rnd (0 - g))) = rnd (g - rnd (a * g))"
    by simp
  have "0 \<le> a * g"
    using a(1) g(1) by simp
  from rounding_mono [OF R this] show lo: "0 \<le> rnd (a * g)"
    by (simp add: rounding_zero [OF R])
  have "a * g \<le> g"
    using a g(1) by (simp add: mult_left_le_one_le)
  from rounding_mono [OF R this] show hi: "rnd (a * g) \<le> g"
    by (simp add: g(2))
  have "0 \<le> g - rnd (a * g)"
    using hi by simp
  from rounding_mono [OF R this] show "0 \<le> rnd (g + rnd (a * rnd (0 - g)))"
    unfolding eq by (simp add: rounding_zero [OF R])
  have "g - rnd (a * g) \<le> g"
    using lo by simp
  from rounding_mono [OF R this] show "rnd (g + rnd (a * rnd (0 - g))) \<le> g"
    unfolding eq by (simp add: g(2))
qed

lemma contraction_factor:
  assumes "0 \<le> eps" "eps \<le> 1 / 100" "0 \<le> a" "a \<le> 1" "11 * eps \<le> a"
  shows "(1 + eps) * (1 - (1 - eps) * a) \<le> 1 - 9 / 10 * (a :: real)"
proof -
  have "eps * eps * a \<le> eps * (1 / 100) * 1"
    using assms by (intro mult_mono) simp_all
  then have "eps + eps * eps * a \<le> a / 10"
    using assms(1,5) by linarith
  moreover have "(1 + eps) * (1 - (1 - eps) * a) = 1 - a + (eps + eps * eps * a)"
    by (simp add: algebra_simps)
  ultimately show ?thesis
    by simp
qed

lemma block_update_contracts:
  assumes R: "rounding rnd eps tiny huge" and a: "0 \<le> a" "a \<le> 1"
    and eps: "0 \<le> eps" "eps \<le> 1 / 100" "11 * eps \<le> a"
    and tiny: "0 < tiny" "(1 + eps) * tiny < 1 / 100000" "tiny * 100000 \<le> a"
    and huge: "1 \<le> huge"
    and g: "rnd g = g" "1 / 100000 \<le> g" "g \<le> 1"
  shows "rnd (g + rnd (a * rnd (0 - g))) \<le> (1 - 9 / 10 * a) * g
     \<or> rnd (g + rnd (a * rnd (0 - g))) < 1 / 100000"
proof -
  have g0: "0 \<le> g"
    using g(2) by simp
  note fade = block_update_fade [OF R a g0 g(1)]
  let ?y = "g - rnd (a * g)"
  have tiny_small: "tiny < 1 / 100000"
  proof -
    have "tiny \<le> (1 + eps) * tiny"
      using eps(1) tiny(1) by (simp add: algebra_simps)
    with tiny(2) show ?thesis
      by simp
  qed
  show ?thesis
  proof (cases "?y < tiny")
    case True
    then have "rnd ?y \<le> rnd tiny"
      by (intro rounding_mono [OF R]) simp
    also have "rnd tiny \<le> (1 + eps) * tiny"
      using tiny_small huge by (intro rounding_upper [OF R]) simp_all
    finally have "rnd ?y < 1 / 100000"
      using tiny(2) by simp
    then show ?thesis
      unfolding fade(1) by (rule disjI2)
  next
    case False
    have "a * (1 / 100000) \<le> a * g"
      using a(1) g(2) by (intro mult_left_mono)
    then have lo: "tiny \<le> a * g"
      using tiny(3) by simp
    have "a * g \<le> 1 * 1"
      using a g(3) g0 by (intro mult_mono) simp_all
    then have hi: "a * g \<le> huge"
      using huge by simp
    have r: "(1 - eps) * (a * g) \<le> rnd (a * g)"
      using lo hi by (rule rounding_lower [OF R])
    have y: "?y \<le> (1 - (1 - eps) * a) * g"
      using r by (simp add: algebra_simps)
    have "?y \<le> huge"
      using fade(2) g(3) huge by simp
    with False have "rnd ?y \<le> (1 + eps) * ?y"
      by (intro rounding_upper [OF R]) simp_all
    also have "\<dots> \<le> (1 + eps) * ((1 - (1 - eps) * a) * g)"
      using y eps(1) by (intro mult_left_mono) simp_all
    also have "\<dots> = ((1 + eps) * (1 - (1 - eps) * a)) * g"
      by simp
    also have "\<dots> \<le> (1 - 9 / 10 * a) * g"
      using contraction_factor [OF eps(1,2) a eps(3)] g0 by (intro mult_right_mono)
    finally show ?thesis
      unfolding fade(1) by (rule disjI1)
  qed
qed


lemma block_updates:
  assumes C: "fade_conditions rnd eps tiny huge a"
    and g: "rnd g = g" "0 \<le> g" "g \<le> 1"
  shows "rnd (((\<lambda>g. rnd (g + rnd (a * rnd (0 - g)))) ^^ b) g)
           = ((\<lambda>g. rnd (g + rnd (a * rnd (0 - g)))) ^^ b) g
     \<and> 0 \<le> ((\<lambda>g. rnd (g + rnd (a * rnd (0 - g)))) ^^ b) g
     \<and> ((\<lambda>g. rnd (g + rnd (a * rnd (0 - g)))) ^^ b) g \<le> g
     \<and> (((\<lambda>g. rnd (g + rnd (a * rnd (0 - g)))) ^^ b) g \<le> (1 - 9 / 10 * a) ^ b * g
         \<or> ((\<lambda>g. rnd (g + rnd (a * rnd (0 - g)))) ^^ b) g < 1 / 100000)"
proof (induction b)
  case 0
  show ?case
    using g by simp
next
  case (Suc b)
  let ?step = "\<lambda>g. rnd (g + rnd (a * rnd (0 - g)))"
  let ?h = "(?step ^^ b) g"
  from C have R: "rounding rnd eps tiny huge" and a: "0 \<le> a" "a \<le> 1"
    and eps: "0 \<le> eps" "eps \<le> 1 / 100" "11 * eps \<le> a"
    and tiny: "0 < tiny" "(1 + eps) * tiny < 1 / 100000" "tiny * 100000 \<le> a"
    and huge: "1 \<le> huge"
    by (simp_all add: fade_conditions_def)
  from Suc.IH have h: "rnd ?h = ?h" "0 \<le> ?h" "?h \<le> g"
    and bound: "?h \<le> (1 - 9 / 10 * a) ^ b * g \<or> ?h < 1 / 100000"
    by simp_all
  have h1: "?h \<le> 1"
    using h(3) g(3) by simp
  note fade = block_update_fade [OF R a h(2) h(1)]
  have next_eq: "(?step ^^ Suc b) g = ?step ?h"
    by simp
  have idem: "rnd (?step ?h) = ?step ?h"
    by (rule rounding_idem [OF R])
  have c: "0 \<le> 1 - 9 / 10 * a"
    using a(2) by simp
  have "?step ?h \<le> (1 - 9 / 10 * a) ^ Suc b * g \<or> ?step ?h < 1 / 100000"
  proof (cases "?h < 1 / 100000")
    case True
    with fade(5) show ?thesis
      by simp
  next
    case False
    then have big: "1 / 100000 \<le> ?h"
      by simp
    with bound have hb: "?h \<le> (1 - 9 / 10 * a) ^ b * g"
      by simp
    from block_update_contracts [OF R a eps tiny huge h(1) big h1]
    show ?thesis
    proof
      assume "?step ?h \<le> (1 - 9 / 10 * a) * ?h"
      also have "\<dots> \<le> (1 - 9 / 10 * a) * ((1 - 9 / 10 * a) ^ b * g)"
        using hb c by (rule mult_left_mono)
      finally show ?thesis
        by (simp add: mult.assoc)
    next
      assume "?step ?h < 1 / 100000"
      then show ?thesis
        by (rule disjI2)
    qed
  qed
  moreover have "?step ?h \<le> g"
    using fade(5) h(3) by simp
  ultimately show ?case
    unfolding next_eq using idem fade(4) by (intro conjI)
qed


lemma declick_call_fades:
  assumes C: "fade_conditions rnd eps tiny huge a"
    and inv: "fading rnd a blocks amp"
    and n: "0 \<le> n" "n < 2 ^ 32"
  shows "fading rnd a (blocks + (nat n + 15) div 16) (declick_call rnd simple_gain 0 amp (buf, n))
     \<and> amp_g (declick_call rnd simple_gain 0 amp (buf, n)) \<le> amp_g amp"
proof -
  let ?b = "(nat n + 15) div 16"
  let ?c = "1 - 9 / 10 * a"
  let ?g = "amp_g amp"
  from C have R: "rounding rnd eps tiny huge" and a: "0 \<le> a" "a \<le> 1"
    by (simp_all add: fade_conditions_def)
  have c: "0 \<le> ?c"
    using a by simp
  from inv have g: "rnd ?g = ?g" "0 \<le> ?g" "?g \<le> 1" and aa: "amp_a amp = a"
    and bound: "?g = 0 \<or> 1 / 100000 \<le> ?g \<and> ?g \<le> ?c ^ blocks"
    by (simp_all add: fading_def)
  show ?thesis
  proof (cases "n = 0 \<or> ?g = 0")
    case True
    then have same: "declick_call rnd simple_gain 0 amp (buf, n) = amp"
      by (auto simp: declick_call_def apply_gain_def)
    from True have "?g = 0 \<or> ?b = 0"
      by auto
    with inv have "fading rnd a (blocks + ?b) amp"
      by (auto simp: fading_def)
    with same show ?thesis
      by simp
  next
    case False
    then have n0: "n \<noteq> 0" and g0: "?g \<noteq> 0"
      by simp_all
    with bound have big: "1 / 100000 \<le> ?g" and le: "?g \<le> ?c ^ blocks"
      by simp_all
    have cnt: "to_guint n = nat n"
      using n by (simp add: to_guint_def)
    let ?h = "((\<lambda>g. rnd (g + rnd (a * rnd (0 - g)))) ^^ ?b) ?g"
    obtain buf' where loop: "apply_gain_loop rnd a 0 buf ?g 0 (nat n) = (buf', ?h)"
      using apply_gain_loop_gain [of rnd a 0 buf ?g 0 "nat n"]
      by (cases "apply_gain_loop rnd a 0 buf ?g 0 (nat n)") simp
    from block_updates [OF C g, of ?b]
    have h: "rnd ?h = ?h" "0 \<le> ?h" "?h \<le> ?g"
      and hb: "?h \<le> ?c ^ ?b * ?g \<or> ?h < 1 / 100000"
      by simp_all
    have snap: "\<bar>rnd (?h - 0)\<bar> = ?h"
      using h(1,2) by simp
    have result: "declick_call rnd simple_gain 0 amp (buf, n)
        = amp\<lparr>amp_g := (if ?h < 1 / 100000 then 0 else ?h)\<rparr>"
      using n0 g0 loop snap by (simp add: declick_call_def apply_gain_def aa cnt)
    show ?thesis
    proof (cases "?h < 1 / 100000")
      case True
      with result g(2) aa show ?thesis
        by (simp add: fading_def rounding_zero [OF R])
    next
      case False
      with hb have "?h \<le> ?c ^ ?b * ?g"
        by simp
      also have "\<dots> \<le> ?c ^ ?b * ?c ^ blocks"
        using le c by (intro mult_left_mono) simp_all
      finally have "?h \<le> ?c ^ (blocks + ?b)"
        by (simp add: power_add mult.commute)
      with False result h g(3) aa show ?thesis
        by (simp add: fading_def)
    qed
  qed
qed

lemma declick_calls_fade:
  assumes C: "fade_conditions rnd eps tiny huge a"
  shows "fading rnd a blocks amp \<Longrightarrow> \<forall>c \<in> set calls. 0 \<le> snd c \<and> snd c < 2 ^ 32 \<Longrightarrow>
     fading rnd a (blocks + sum_list (map (\<lambda>c. (nat (snd c) + 15) div 16) calls))
       (foldl (declick_call rnd simple_gain 0) amp calls)
     \<and> amp_g (foldl (declick_call rnd simple_gain 0) amp calls) \<le> amp_g amp"
proof (induction calls arbitrary: blocks amp)
  case Nil
  then show ?case by simp
next
  case (Cons c calls)
  obtain buf n where c: "c = (buf, n)"
    by (cases c)
  from Cons.prems(2) c have n: "0 \<le> n" "n < 2 ^ 32"
    and rest: "\<forall>c \<in> set calls. 0 \<le> snd c \<and> snd c < 2 ^ 32"
    by simp_all
  note one = declick_call_fades [OF C Cons.prems(1) n, of simple_gain buf]
  from Cons.IH [OF one [THEN conjunct1] rest] one [THEN conjunct2] show ?case
    by (simp add: c add.assoc)
qed


lemma exp_1_lower: "27 / 10 \<le> exp (1 :: real)"
proof -
  have "1 + (1 / 8) + (1 / 8)\<^sup>2 / 2 \<le> exp (1 / 8 :: real)"
    by (rule exp_lower_Taylor_quadratic) simp
  then have "(145 / 128 :: real) \<le> exp (1 / 8)"
    by (simp add: power2_eq_square)
  then have "(145 / 128 :: real) ^ 8 \<le> exp (1 / 8) ^ 8"
    by (intro power_mono) simp_all
  also have "exp (1 / 8 :: real) ^ 8 = exp (of_nat 8 * (1 / 8))"
    by (rule exp_of_nat_mult [symmetric])
  also have "\<dots> = exp 1"
    by simp
  finally have "(145 / 128 :: real) ^ 8 \<le> exp 1" .
  moreover have "(27 / 10 :: real) \<le> (145 / 128) ^ 8"
    by (simp add: power_divide)
  ultimately show ?thesis
    by simp
qed

lemma exp_12: "100000 < exp (12 :: real)"
proof -
  have "(27 / 10 :: real) ^ 12 \<le> exp 1 ^ 12"
    using exp_1_lower by (intro power_mono) simp_all
  also have "exp (1 :: real) ^ 12 = exp (of_nat 12 * 1)"
    by (rule exp_of_nat_mult [symmetric])
  also have "\<dots> = exp 12"
    by simp
  finally have "(27 / 10 :: real) ^ 12 \<le> exp 12" .
  moreover have "(100000 :: real) < (27 / 10) ^ 12"
    by (simp add: power_divide)
  ultimately show ?thesis
    by simp
qed

lemma fade_power:
  assumes "0 \<le> x" "x \<le> 1" "12 \<le> real n * x"
  shows "(1 - x) ^ n < 1 / 100000"
proof -
  have "1 - x \<le> exp (- x)"
    using exp_ge_add_one_self [of "- x"] by simp
  then have "(1 - x) ^ n \<le> exp (- x) ^ n"
    using assms(2) by (intro power_mono) simp_all
  also have "\<dots> = exp (- (real n * x))"
    by (simp add: exp_of_nat_mult [symmetric])
  also have "\<dots> \<le> exp (- 12)"
    using assms(3) by simp
  also have "\<dots> < 1 / 100000"
    using exp_12 by (simp add: exp_minus field_simps)
  finally show ?thesis .
qed


lemma DeclickAmp_new_bounds:
  assumes R: "rounding rnd eps tiny huge" and eps: "0 \<le> eps" "eps \<le> 1 / 100"
    and tiny: "0 < tiny"
    and sr: "4550 \<le> sample_rate" "real_of_int sample_rate \<le> huge"
      "tiny * real_of_int sample_rate \<le> 1 / 25"
  shows "DeclickAmp_new rnd sample_rate
         = Some \<lparr>amp_a = rnd (4550 / rnd (real_of_int sample_rate)), amp_g = 0\<rparr>"
    and "0 \<le> rnd (4550 / rnd (real_of_int sample_rate))"
    and "rnd (4550 / rnd (real_of_int sample_rate)) \<le> 1"
    and "4459 / real_of_int sample_rate \<le> rnd (4550 / rnd (real_of_int sample_rate))"
proof -
  let ?s = "real_of_int sample_rate"
  let ?srf = "rnd ?s"
  let ?q = "4550 / ?srf"
  have s: "4550 \<le> ?s"
    using sr(1) by simp
  have r4550: "rnd 4550 = 4550" and r1: "rnd 1 = 1"
    using R by (simp_all add: rounding_def)
  have srf_lo: "4550 \<le> ?srf"
    using rounding_mono [OF R s] by (simp add: r4550)
  have "tiny * 1 \<le> tiny * ?s"
    using tiny s by (intro mult_left_mono) simp_all
  then have tiny_s: "tiny \<le> ?s"
    using sr(3) s by simp
  have srf_hi: "?srf \<le> (1 + eps) * ?s"
    using tiny_s sr(2) by (rule rounding_upper [OF R])
  show "DeclickAmp_new rnd sample_rate = Some \<lparr>amp_a = rnd ?q, amp_g = 0\<rparr>"
    using srf_lo by (simp add: DeclickAmp_new_def)
  have q_pos: "0 \<le> ?q" and q_one: "?q \<le> 1"
    using srf_lo by simp_all
  from rounding_mono [OF R q_pos] show "0 \<le> rnd ?q"
    by (simp add: rounding_zero [OF R])
  from rounding_mono [OF R q_one] show "rnd ?q \<le> 1"
    by (simp add: r1)
  have pos: "0 < (1 + eps) * ?s"
    using eps(1) s by (intro mult_pos_pos) simp_all
  have "0 < ?srf"
    using srf_lo by simp
  then have "0 < (1 + eps) * ?s * ?srf"
    by (rule mult_pos_pos [OF pos])
  then have q_lo: "4550 / ((1 + eps) * ?s) \<le> ?q"
    using srf_hi by (intro divide_left_mono) simp_all
  have "tiny * ((1 + eps) * ?s) = (1 + eps) * (tiny * ?s)"
    by simp
  also have "\<dots> \<le> (1 + 1 / 100) * (1 / 25)"
    using eps sr(3) tiny s by (intro mult_mono) simp_all
  finally have "tiny * ((1 + eps) * ?s) \<le> 4550"
    by simp
  then have "tiny \<le> 4550 / ((1 + eps) * ?s)"
    using pos by (simp add: pos_le_divide_eq)
  with q_lo have q_tiny: "tiny \<le> ?q"
    by simp
  have q_huge: "?q \<le> huge"
    using q_one s sr(2) by simp
  have "4459 * (1 + eps) \<le> (1 - eps) * 4550"
    using eps by simp
  then have "4459 \<le> (1 - eps) * 4550 / (1 + eps)"
    using eps(1) by (simp add: pos_le_divide_eq)
  then have "4459 / ?s \<le> ((1 - eps) * 4550 / (1 + eps)) / ?s"
    using s by (intro divide_right_mono) simp_all
  also have "\<dots> = (1 - eps) * (4550 / ((1 + eps) * ?s))"
    by simp
  also have "\<dots> \<le> (1 - eps) * ?q"
    using q_lo eps(2) by (intro mult_left_mono) simp_all
  also have "\<dots> \<le> rnd ?q"
    using q_tiny q_huge by (rule rounding_lower [OF R])
  finally show "4459 / ?s \<le> rnd ?q" .
qed

lemma blocks_cover: "sum_list (map snd calls) \<le> 16 * int (sum_list (map (\<lambda>c. (nat (snd c) + 15) div 16) calls))"
proof (induction calls)
  case Nil
  show ?case by simp
next
  case (Cons c calls)
  have "snd c \<le> 16 * int ((nat (snd c) + 15) div 16)"
    by linarith
  with Cons.IH show ?case
    by simp
qed


lemma fade_ready:
  assumes R: "rounding rnd eps tiny huge" and eps: "0 \<le> eps" "eps \<le> 1 / 100"
    and tiny: "0 < tiny" "(1 + eps) * tiny < 1 / 100000"
    and sr: "4550 \<le> sample_rate" "real_of_int sample_rate \<le> huge"
      "eps * real_of_int sample_rate \<le> 400" "tiny * real_of_int sample_rate \<le> 1 / 25"
  shows "fade_conditions rnd eps tiny huge (rnd (4550 / rnd (real_of_int sample_rate)))"
    and "fading rnd (rnd (4550 / rnd (real_of_int sample_rate))) 0
           \<lparr>amp_a = rnd (4550 / rnd (real_of_int sample_rate)), amp_g = 1\<rparr>"
proof -
  let ?s = "real_of_int sample_rate"
  let ?a = "rnd (4550 / rnd ?s)"
  note b = DeclickAmp_new_bounds [OF R eps tiny(1) sr(1,2,4)]
  have s: "4550 \<le> ?s"
    using sr(1) by simp
  have "11 * eps * ?s \<le> 4459"
    using sr(3) by simp
  then have "11 * eps \<le> 4459 / ?s"
    using s by (simp add: pos_le_divide_eq)
  with b(4) have e: "11 * eps \<le> ?a"
    by simp
  have "tiny * 100000 * ?s \<le> 4459"
    using sr(4) by simp
  then have "tiny * 100000 \<le> 4459 / ?s"
    using s by (simp add: pos_le_divide_eq)
  with b(4) have t: "tiny * 100000 \<le> ?a"
    by simp
  have h: "1 \<le> huge"
    using s sr(2) by simp
  show "fade_conditions rnd eps tiny huge ?a"
    unfolding fade_conditions_def using R b(2,3) eps e tiny t h by (intro conjI)
  have "rnd 1 = 1"
    using R by (simp add: rounding_def)
  then show "fading rnd ?a 0 \<lparr>amp_a = ?a, amp_g = 1\<rparr>"
    by (simp add: fading_def)
qed

lemma fade_blocks:
  assumes s: "4550 \<le> sample_rate"
    and a: "4459 / real_of_int sample_rate \<le> a" "a \<le> 1"
    and n: "224 * \<lceil>real_of_int sample_rate / 4550\<rceil> \<le> 16 * int blocks"
  shows "(1 - 9 / 10 * a) ^ blocks < 1 / 100000"
proof (rule fade_power)
  let ?s = "real_of_int sample_rate"
  have s': "4550 \<le> ?s"
    using s by simp
  have a0: "0 \<le> a"
  proof -
    have "0 \<le> 4459 / ?s"
      using s' by simp
    then show ?thesis
      using a(1) by (rule order_trans)
  qed
  show "0 \<le> 9 / 10 * a" "9 / 10 * a \<le> 1"
    using a0 a(2) by simp_all
  have "14 * \<lceil>?s / 4550\<rceil> \<le> int blocks"
    using n by simp
  then have "real_of_int (14 * \<lceil>?s / 4550\<rceil>) \<le> real_of_int (int blocks)"
    by (simp only: of_int_le_iff)
  then have "14 * real_of_int \<lceil>?s / 4550\<rceil> \<le> real blocks"
    by simp
  moreover have "?s / 4550 \<le> real_of_int \<lceil>?s / 4550\<rceil>"
    by (rule le_of_int_ceiling)
  ultimately have blocks: "14 * (?s / 4550) \<le> real blocks"
    by linarith
  have "12 \<le> (14 * (?s / 4550)) * (9 / 10 * (4459 / ?s))"
    using s' by simp
  also have "\<dots> \<le> real blocks * (9 / 10 * a)"
    using blocks a(1) a0 s' by (intro mult_mono) simp_all
  finally show "12 \<le> real blocks * (9 / 10 * a)" .
qed

text \<open>
  C7, as stated, fails for a sample rate below 4550, where \<open>a\<close> exceeds 1. At 2275 the
  coefficient is exactly 2, also in \<open>float\<close>: a block update turns the gain 1 into -1 and
  the next call turns it back into 1, so the gains go up again and never reach 0.
\<close>

theorem declick_counterexample:
  "DeclickAmp_new exact 2275 = Some \<lparr>amp_a = 2, amp_g = 0\<rparr>
   \<and> declick_call exact scale 0 \<lparr>amp_a = 2, amp_g = 1\<rparr> (replicate 16 0, 16)
       = \<lparr>amp_a = 2, amp_g = - 1\<rparr>
   \<and> declick_call exact scale 0 \<lparr>amp_a = 2, amp_g = - 1\<rparr> (replicate 16 0, 16)
       = \<lparr>amp_a = 2, amp_g = 1\<rparr>"
  by (simp add: DeclickAmp_new_def exact_def declick_call_def apply_gain_def to_guint_def
        apply_gain_loop.simps [of _ _ _ _ _ _ 16] apply_gain_loop.simps [of _ _ _ _ _ _ 0])

text \<open>
  C7, amended. For a sample rate of at least 4550 and a rounding as described by
  \<open>rounding\<close>, with \<open>eps\<close> at most 1/100, \<open>eps\<close> times the rate at most 400, and \<open>tiny\<close> small
  against \<open>1e-5\<close> and against the inverse of the rate: starting from the gain 1 with
  target 0, the gain after any calls of \<open>apply_gain\<close> with sample counts below \<open>2\<^sup>3\<^sup>2\<close> lies
  between 0 and 1, further calls never raise it, and it is exactly 0 once the calls
  amount to \<open>224 * ceil (sample_rate / 4550)\<close> samples.
\<close>

theorem declick_fade_out:
  assumes "rounding rnd eps tiny huge" and "0 \<le> eps" "eps \<le> 1 / 100"
    and "0 < tiny" "(1 + eps) * tiny < 1 / 100000"
    and "4550 \<le> sample_rate" "real_of_int sample_rate \<le> huge"
      "eps * real_of_int sample_rate \<le> 400" "tiny * real_of_int sample_rate \<le> 1 / 25"
    and "\<forall>c \<in> set (calls @ later_calls). 0 \<le> snd c \<and> snd c < 2 ^ 32"
    and "amp = \<lparr>amp_a = rnd (4550 / rnd (real_of_int sample_rate)), amp_g = 1\<rparr>"
  shows "DeclickAmp_new rnd sample_rate = Some (amp\<lparr>amp_g := 0\<rparr>)
     \<and> 0 \<le> amp_g (foldl (declick_call rnd simple_gain 0) amp calls)
     \<and> amp_g (foldl (declick_call rnd simple_gain 0) amp calls) \<le> 1
     \<and> amp_g (foldl (declick_call rnd simple_gain 0) amp (calls @ later_calls))
         \<le> amp_g (foldl (declick_call rnd simple_gain 0) amp calls)
     \<and> (224 * \<lceil>real_of_int sample_rate / 4550\<rceil> \<le> sum_list (map snd calls) \<longrightarrow>
         amp_g (foldl (declick_call rnd simple_gain 0) amp calls) = 0)"
proof -
  let ?a = "rnd (4550 / rnd (real_of_int sample_rate))"
  let ?blocks = "sum_list (map (\<lambda>c. (nat (snd c) + 15) div 16) calls)"
  let ?after = "foldl (declick_call rnd simple_gain 0) amp calls"
  note b = DeclickAmp_new_bounds [OF assms(1,2,3,4,6,7,9)]
  note C = fade_ready(1) [OF assms(1-9)]
  have start: "fading rnd ?a 0 amp"
    unfolding assms(11) by (rule fade_ready(2) [OF assms(1-9)])
  have calls: "\<forall>c \<in> set calls. 0 \<le> snd c \<and> snd c < 2 ^ 32"
    and later_calls: "\<forall>c \<in> set later_calls. 0 \<le> snd c \<and> snd c < 2 ^ 32"
    using assms(10) by simp_all
  from declick_calls_fade [OF C start calls, of simple_gain]
  have first: "fading rnd ?a ?blocks ?after" and le1: "amp_g ?after \<le> amp_g amp"
    by simp_all
  from declick_calls_fade [OF C first later_calls, of simple_gain]
  have after_more: "amp_g (foldl (declick_call rnd simple_gain 0) amp (calls @ later_calls)) \<le> amp_g ?after"
    by simp
  have new: "DeclickAmp_new rnd sample_rate = Some (amp\<lparr>amp_g := 0\<rparr>)"
    using b(1) by (simp add: assms(11))
  have range: "0 \<le> amp_g ?after" "amp_g ?after \<le> 1"
    using first by (simp_all add: fading_def)
  have zero: "amp_g ?after = 0"
    if enough: "224 * \<lceil>real_of_int sample_rate / 4550\<rceil> \<le> sum_list (map snd calls)"
  proof -
    have "224 * \<lceil>real_of_int sample_rate / 4550\<rceil> \<le> 16 * int ?blocks"
      using enough blocks_cover [of calls] by linarith
    from fade_blocks [OF assms(6) b(4) b(3) this]
    have "(1 - 9 / 10 * ?a) ^ ?blocks < 1 / 100000" .
    with first show ?thesis
      by (auto simp: fading_def)
  qed
  from new range after_more zero show ?thesis
    by (intro conjI impI)
qed

theorem declick_fade_out_witness:
  "4550 \<le> (48000 :: int) \<and> real_of_int 48000 \<le> 1000000
   \<and> (1 / 1000000000) * real_of_int 48000 \<le> 1 / 25
   \<and> 224 * \<lceil>real_of_int 48000 / 4550\<rceil> = 2464
   \<and> DeclickAmp_new exact 48000 = Some \<lparr>amp_a = 91 / 960, amp_g = 0\<rparr>
   \<and> amp_g (foldl (declick_call exact scale 0) \<lparr>amp_a = 91 / 960, amp_g = 1\<rparr>
         [(replicate 1024 0, 1024), (replicate 1024 0, 1024), (replicate 416 0, 416)]) = 0
   \<and> amp_g (foldl (declick_call exact scale 0) \<lparr>amp_a = 91 / 960, amp_g = 1\<rparr>
         [(replicate 1024 0, 1024), (replicate 1024 0, 1024), (replicate 416 0, 416),
          (replicate 64 0, 64)]) \<le> 0"
proof -
  let ?calls = "[(replicate 1024 0, 1024), (replicate 1024 0, 1024), (replicate 416 0, 416)]
    :: (Sample list \<times> samplecnt) list"
  let ?more = "[(replicate 64 0, 64)] :: (Sample list \<times> samplecnt) list"
  have R: "rounding exact 0 (1 / 1000000000) 1000000"
    by (simp add: rounding_def exact_def)
  have a: "exact (4550 / exact (real_of_int 48000)) = 91 / 960"
    by (simp add: exact_def)
  have h1: "4550 \<le> (48000 :: int)" and h2: "real_of_int 48000 \<le> 1000000"
    and h3: "(1 / 1000000000) * real_of_int 48000 \<le> 1 / 25"
    by simp_all
  have k: "224 * \<lceil>real_of_int 48000 / 4550\<rceil> = 2464"
  proof -
    have "\<lceil>real_of_int 48000 / 4550\<rceil> = 11"
      by (simp add: ceiling_eq_iff)
    then show ?thesis
      by simp
  qed
  have enough: "224 * \<lceil>real_of_int 48000 / 4550\<rceil> \<le> sum_list (map snd ?calls)"
    unfolding k by simp
  have c: "DeclickAmp_new exact 48000 = Some (\<lparr>amp_a = 91 / 960, amp_g = 1\<rparr>\<lparr>amp_g := 0\<rparr>)
     \<and> 0 \<le> amp_g (foldl (declick_call exact scale 0) \<lparr>amp_a = 91 / 960, amp_g = 1\<rparr> ?calls)
     \<and> amp_g (foldl (declick_call exact scale 0) \<lparr>amp_a = 91 / 960, amp_g = 1\<rparr> ?calls) \<le> 1
     \<and> amp_g (foldl (declick_call exact scale 0) \<lparr>amp_a = 91 / 960, amp_g = 1\<rparr>
           (?calls @ ?more))
         \<le> amp_g (foldl (declick_call exact scale 0) \<lparr>amp_a = 91 / 960, amp_g = 1\<rparr> ?calls)
     \<and> (224 * \<lceil>real_of_int 48000 / 4550\<rceil> \<le> sum_list (map snd ?calls) \<longrightarrow>
         amp_g (foldl (declick_call exact scale 0) \<lparr>amp_a = 91 / 960, amp_g = 1\<rparr> ?calls) = 0)"
    by (rule declick_fade_out [OF R, where sample_rate = 48000]) (simp_all add: exact_def)
  have new: "DeclickAmp_new exact 48000 = Some \<lparr>amp_a = 91 / 960, amp_g = 0\<rparr>"
    using c [THEN conjunct1] by simp
  have zero: "amp_g (foldl (declick_call exact scale 0) \<lparr>amp_a = 91 / 960, amp_g = 1\<rparr> ?calls) = 0"
    using c enough by blast
  have "amp_g (foldl (declick_call exact scale 0) \<lparr>amp_a = 91 / 960, amp_g = 1\<rparr> (?calls @ ?more))
      \<le> amp_g (foldl (declick_call exact scale 0) \<lparr>amp_a = 91 / 960, amp_g = 1\<rparr> ?calls)"
    using c by blast
  then have after: "amp_g (foldl (declick_call exact scale 0) \<lparr>amp_a = 91 / 960, amp_g = 1\<rparr>
         [(replicate 1024 0, 1024), (replicate 1024 0, 1024), (replicate 416 0, 416),
          (replicate 64 0, 64)]) \<le> 0"
    unfolding zero by (simp only: append.simps)
  from h1 h2 h3 k new zero after show ?thesis
    by (intro conjI)
qed

end
